theory Spec2Isabelle
  imports Complex_Main
begin

section \<open>Floating values\<close>

text \<open>
  The columns of a pandas frame hold floats. They are modelled as exact reals extended
  with the special values that decide the program's control flow: NaN (what
  \<^verbatim>\<open>dropna\<close> removes and what every comparison rejects) and the two infinities
  (what a division by zero yields). Rounding is not modelled, and zero carries no sign:
  a division of a non-zero value by zero takes the sign of the numerator.
\<close>

datatype fval = Fin real | PInf | NInf | NaN

fun isnan :: "fval \<Rightarrow> bool" where
  "isnan NaN = True"
| "isnan _ = False"

fun fneg :: "fval \<Rightarrow> fval" where
  "fneg (Fin a) = Fin (- a)"
| "fneg PInf = NInf"
| "fneg NInf = PInf"
| "fneg NaN = NaN"

fun fadd :: "fval \<Rightarrow> fval \<Rightarrow> fval" where
  "fadd NaN _ = NaN"
| "fadd _ NaN = NaN"
| "fadd (Fin a) (Fin b) = Fin (a + b)"
| "fadd PInf NInf = NaN"
| "fadd NInf PInf = NaN"
| "fadd PInf _ = PInf"
| "fadd NInf _ = NInf"
| "fadd (Fin a) PInf = PInf"
| "fadd (Fin a) NInf = NInf"

definition fsub :: "fval \<Rightarrow> fval \<Rightarrow> fval" where
  "fsub a b = fadd a (fneg b)"

fun fdiv :: "fval \<Rightarrow> fval \<Rightarrow> fval" where
  "fdiv NaN _ = NaN"
| "fdiv _ NaN = NaN"
| "fdiv (Fin a) (Fin b) =
     (if b \<noteq> 0 then Fin (a / b)
      else if 0 < a then PInf else if a < 0 then NInf else NaN)"
| "fdiv (Fin a) PInf = Fin 0"
| "fdiv (Fin a) NInf = Fin 0"
| "fdiv PInf (Fin b) = (if 0 \<le> b then PInf else NInf)"
| "fdiv NInf (Fin b) = (if 0 \<le> b then NInf else PInf)"
| "fdiv PInf _ = NaN"
| "fdiv NInf _ = NaN"

fun flt :: "fval \<Rightarrow> fval \<Rightarrow> bool" where
  "flt NaN _ = False"
| "flt _ NaN = False"
| "flt (Fin a) (Fin b) = (a < b)"
| "flt (Fin a) PInf = True"
| "flt NInf (Fin b) = True"
| "flt NInf PInf = True"
| "flt _ _ = False"

definition fgt :: "fval \<Rightarrow> fval \<Rightarrow> bool" where
  "fgt a b = flt b a"

fun of_opt :: "real option \<Rightarrow> fval" where
  "of_opt None = NaN"
| "of_opt (Some r) = Fin r"

section \<open>Frames\<close>

text \<open>
  A bar of the fetched series and a row of the frame after
  \<^verbatim>\<open>calculate_indicators\<close>. The fetched values are finite floats
  (\<^verbatim>\<open>astype(float)\<close> of the decimal strings of the API), so a fetched series
  is a list of \<open>real bar\<close>; a frame with its derived columns is a list of
  \<open>fval row\<close>, where any entry may be NaN.
\<close>

record 'v bar =
  ts :: nat
  Open :: 'v
  High :: 'v
  Low :: 'v
  Close :: 'v
  Volume :: 'v

record 'v row = "'v bar" +
  EMA :: 'v
  SMA :: 'v
  RSI :: 'v
  MACD :: 'v
  Signal :: 'v

section \<open>Signals\<close>

datatype signal = BUY | SELL | HOLD

type_synonym signals = "(string \<times> signal) list"

text \<open>\<^verbatim>\<open>df.dropna(subset=['RSI', 'MACD', 'Signal', 'EMA', 'SMA', 'Close'])\<close>\<close>

definition complete_row :: "fval row \<Rightarrow> bool" where
  "complete_row r =
     (\<not> isnan (RSI r) \<and> \<not> isnan (MACD r) \<and> \<not> isnan (Signal r) \<and>
      \<not> isnan (EMA r) \<and> \<not> isnan (SMA r) \<and> \<not> isnan (Close r))"

definition dropna :: "fval row list \<Rightarrow> fval row list" where
  "dropna df = filter complete_row df"

definition classify :: "fval row \<Rightarrow> signals" where
  "classify latest =
     [(''RSI'', if flt (RSI latest) (Fin 30) then BUY
                else if fgt (RSI latest) (Fin 70) then SELL else HOLD),
      (''MACD'', if fgt (MACD latest) (Signal latest) then BUY
                 else if flt (MACD latest) (Signal latest) then SELL else HOLD),
      (''EMA'', if fgt (Close latest) (EMA latest) then BUY else SELL),
      (''SMA'', if fgt (Close latest) (SMA latest) then BUY else SELL)]"

definition get_signals :: "fval row list \<Rightarrow> signals" where
  "get_signals df =
     (let df_clean = dropna df in
      if df_clean = [] then
        [(''RSI'', HOLD), (''MACD'', HOLD), (''EMA'', HOLD), (''SMA'', HOLD)]
      else classify (last df_clean))"

text \<open>\<^verbatim>\<open>sum(1 for v in signals.values() if v == "BUY")\<close>\<close>

definition buy_count :: "signals \<Rightarrow> nat" where
  "buy_count sigs = length (filter (\<lambda>v. v = BUY) (map snd sigs))"

text \<open>\<^verbatim>\<open>"BUY" if buy_count >= 3 else "SELL" if buy_count <= 1 else "HOLD"\<close>\<close>

definition overall :: "nat \<Rightarrow> signal" where
  "overall n = (if 3 \<le> n then BUY else if n \<le> 1 then SELL else HOLD)"

section \<open>Series operations\<close>

text \<open>
  The pandas operations the indicator functions call, on a close-price series of finite
  values. An intermediate series may hold NaN (\<open>None\<close>) but no infinity before the
  division in \<^verbatim>\<open>compute_rsi\<close>.

  \<^verbatim>\<open>series.diff()\<close>: the first entry is NaN, every other one is the difference to the
  entry before it.
\<close>

fun diff :: "real list \<Rightarrow> real option list" where
  "diff [] = []"
| "diff (x # xs) = None # map2 (\<lambda>cur prev. Some (cur - prev)) xs (x # xs)"

text \<open>\<^verbatim>\<open>clip(lower=0)\<close> and \<^verbatim>\<open>clip(upper=0)\<close>: NaN stays NaN.\<close>

definition clip_lower :: "real \<Rightarrow> real option list \<Rightarrow> real option list" where
  "clip_lower lo s = map (map_option (\<lambda>v. max v lo)) s"

definition clip_upper :: "real \<Rightarrow> real option list \<Rightarrow> real option list" where
  "clip_upper hi s = map (map_option (\<lambda>v. min v hi)) s"

definition scale :: "real \<Rightarrow> real option list \<Rightarrow> real option list" where
  "scale c s = map (map_option (\<lambda>v. c * v)) s"

text \<open>
  \<^verbatim>\<open>rolling(window=n).mean()\<close> with the default \<^verbatim>\<open>min_periods = n\<close>: the entry at
  position \<open>i\<close> is the mean of the \<open>n\<close> entries ending at \<open>i\<close> when there are \<open>n\<close> of
  them and none is NaN, and NaN otherwise (an empty window has no mean).
\<close>

definition window :: "nat \<Rightarrow> 'a list \<Rightarrow> nat \<Rightarrow> 'a list" where
  "window n s i = take n (drop (Suc i - n) s)"

definition rolling_mean :: "nat \<Rightarrow> real option list \<Rightarrow> real option list" where
  "rolling_mean n s =
     map (\<lambda>i. let w = window n s i in
               if n = 0 \<or> Suc i < n \<or> list_ex (\<lambda>v. v = None) w then None
               else Some (sum_list (map the w) / real n))
         [0..<length s]"

text \<open>
  \<^verbatim>\<open>ewm(span=span, adjust=adjust).mean()\<close>, computed the way pandas does, in one pass
  that carries the running mean \<open>weighted\<close> and the weight \<open>old_wt\<close> of the history:
  \<open>alpha = 2 / (span + 1)\<close>, the history's weight decays by \<open>1 - alpha\<close> at each step,
  and the new observation weighs 1 (adjust) or \<open>alpha\<close> (no adjust).
\<close>

fun ewm_loop :: "real \<Rightarrow> bool \<Rightarrow> real \<Rightarrow> real \<Rightarrow> real list \<Rightarrow> real list" where
  "ewm_loop alpha adjust weighted old_wt [] = []"
| "ewm_loop alpha adjust weighted old_wt (cur # vals) =
     (let old_wt1 = old_wt * (1 - alpha);
          new_wt = (if adjust then 1 else alpha);
          weighted1 = (old_wt1 * weighted + new_wt * cur) / (old_wt1 + new_wt);
          old_wt2 = (if adjust then old_wt1 + new_wt else 1)
      in weighted1 # ewm_loop alpha adjust weighted1 old_wt2 vals)"

definition ewm_mean :: "nat \<Rightarrow> bool \<Rightarrow> real list \<Rightarrow> real list" where
  "ewm_mean span_n adjust s =
     (case s of [] \<Rightarrow> []
      | v # vals \<Rightarrow> v # ewm_loop (2 / (real span_n + 1)) adjust v 1 vals)"

section \<open>Indicators\<close>

definition compute_rsi :: "real list \<Rightarrow> nat \<Rightarrow> fval list" where
  "compute_rsi series period =
     (let delta = diff series;
          gain = clip_lower 0 delta;
          loss = scale (- 1) (clip_upper 0 delta);
          avg_gain = rolling_mean period gain;
          avg_loss = rolling_mean period loss;
          rs = map2 (\<lambda>g l. fdiv (of_opt g) (of_opt l)) avg_gain avg_loss
      in map (\<lambda>v. fsub (Fin 100) (fdiv (Fin 100) (fadd (Fin 1) v))) rs)"

definition compute_macd :: "real list \<Rightarrow> real list \<times> real list" where
  "compute_macd series =
     (let exp1 = ewm_mean 12 False series;
          exp2 = ewm_mean 26 False series;
          macd = map2 (\<lambda>a b. a - b) exp1 exp2;
          signal = ewm_mean 9 False macd
      in (macd, signal))"

text \<open>
  \<^verbatim>\<open>calculate_indicators\<close> adds the five derived columns to the frame. Each new
  column has the frame's index, so its entries are stored by position.
\<close>

definition calculate_indicators :: "real bar list \<Rightarrow> fval row list" where
  "calculate_indicators df =
     (let close = map Close df;
          ema = ewm_mean 20 True close;
          sma = rolling_mean 10 (map Some close);
          rsi = compute_rsi close 14;
          (macd, signal) = compute_macd close
      in map (\<lambda>i. \<lparr>ts = ts (df ! i), Open = Fin (Open (df ! i)), High = Fin (High (df ! i)),
                     Low = Fin (Low (df ! i)), Close = Fin (Close (df ! i)),
                     Volume = Fin (Volume (df ! i)),
                     EMA = Fin (ema ! i), SMA = of_opt (sma ! i), RSI = rsi ! i,
                     MACD = Fin (macd ! i), Signal = Fin (signal ! i)\<rparr>)
             [0..<length df])"

section \<open>Single stock and market scan\<close>

text \<open>
  The fetcher is a parameter: \<open>fetch symbol\<close> is \<open>None\<close> where
  \<^verbatim>\<open>get_alpha_vantage_data\<close> returns \<^verbatim>\<open>None\<close> (any failure), and the sorted
  frame otherwise. What the worker emits on its Qt signals is the list of events returned.
\<close>

datatype event =
    Error_emit
  | Update_labels signals
  | Update_overall signal
  | Update_chart "fval row list"
  | Update_scan_results string

definition update_stock_data :: "(string \<Rightarrow> real bar list option) \<Rightarrow> string \<Rightarrow> event list" where
  "update_stock_data fetch symbol =
     (case fetch symbol of
        None \<Rightarrow> [Error_emit]
      | Some df0 \<Rightarrow>
          if df0 = [] then [Error_emit]
          else
            (let df = calculate_indicators df0;
                 sigs = get_signals df;
                 n = buy_count sigs
             in [Update_labels sigs, Update_overall (overall n), Update_chart df]))"

text \<open>Python's \<^verbatim>\<open>str\<close> of a non-negative integer, and \<^verbatim>\<open>sep.join\<close>.\<close>

definition digit :: "nat \<Rightarrow> char" where
  "digit d = char_of (48 + d)"

fun str_nat :: "nat \<Rightarrow> string" where
  "str_nat n = (if n < 10 then [digit n] else str_nat (n div 10) @ [digit (n mod 10)])"

declare str_nat.simps [simp del]

fun join :: "string \<Rightarrow> string list \<Rightarrow> string" where
  "join sep [] = []"
| "join sep [x] = x"
| "join sep (x # y # ys) = x @ sep @ join sep (y # ys)"

definition tickers :: "string list" where
  "tickers = [''AAPL'', ''GOOG'', ''MSFT'', ''AMZN'', ''META'', ''TSLA'', ''NVDA'', ''JPM'',
              ''NFLX'', ''BRK-B'']"

text \<open>
  The loop of \<^verbatim>\<open>scan_market\<close> over the symbols still to visit, with the list
  \<open>matches\<close> built so far. The pause after each processed symbol changes no value.
\<close>

fun scan_loop :: "(string \<Rightarrow> real bar list option) \<Rightarrow> string list \<Rightarrow> string list \<Rightarrow> string list" where
  "scan_loop fetch [] matches = matches"
| "scan_loop fetch (symbol # rest) matches =
     (case fetch symbol of
        None \<Rightarrow> scan_loop fetch rest matches
      | Some df0 \<Rightarrow>
          if df0 = [] then scan_loop fetch rest matches
          else
            (let df = calculate_indicators df0;
                 sigs = get_signals df;
                 n = buy_count sigs
             in if 3 \<le> n
                then scan_loop fetch rest
                       (matches @ [symbol @ '': '' @ str_nat n @ ''/4 indicators say BUY''])
                else scan_loop fetch rest matches))"

definition scan_report :: "string list \<Rightarrow> string" where
  "scan_report matches =
     (if matches \<noteq> [] then join [CHR 0x0A] matches else ''No strong BUY signals found.'')"

definition scan_market :: "(string \<Rightarrow> real bar list option) \<Rightarrow> event list" where
  "scan_market fetch = [Update_scan_results (scan_report (scan_loop fetch tickers []))]"

section \<open>Properties: auxiliary definitions\<close>

text \<open>
  What the scan does with one symbol, written apart from the loop: the buy count of a
  symbol whose fetch gave a non-empty series, and the lines it adds to the report.
\<close>

definition scan_buy_count :: "(string \<Rightarrow> real bar list option) \<Rightarrow> string \<Rightarrow> nat option" where
  "scan_buy_count fetch symbol =
     (case fetch symbol of
        None \<Rightarrow> None
      | Some df0 \<Rightarrow>
          if df0 = [] then None
          else Some (buy_count (get_signals (calculate_indicators df0))))"

definition report_line :: "string \<Rightarrow> nat \<Rightarrow> string" where
  "report_line symbol n = symbol @ '': '' @ str_nat n @ ''/4 indicators say BUY''"

definition scan_lines :: "(string \<Rightarrow> real bar list option) \<Rightarrow> string \<Rightarrow> string list" where
  "scan_lines fetch symbol =
     (case scan_buy_count fetch symbol of
        None \<Rightarrow> []
      | Some n \<Rightarrow> if 3 \<le> n then [report_line symbol n] else [])"

definition hold_all :: signals where
  "hold_all = [(''RSI'', HOLD), (''MACD'', HOLD), (''EMA'', HOLD), (''SMA'', HOLD)]"

definition fetch_fail :: "string \<Rightarrow> real bar list option" where
  "fetch_fail symbol = None"

definition nan_row :: "fval row" where
  "nan_row = \<lparr>ts = 1, Open = Fin 1, High = Fin 1, Low = Fin 1, Close = Fin 1, Volume = Fin 1,
              EMA = Fin 1, SMA = NaN, RSI = NaN, MACD = Fin 0, Signal = Fin 0\<rparr>"

definition full_row :: "fval row" where
  "full_row = \<lparr>ts = 0, Open = Fin 5, High = Fin 5, Low = Fin 5, Close = Fin 5, Volume = Fin 1,
              EMA = Fin 4, SMA = Fin 5, RSI = Fin 20, MACD = Fin 1, Signal = Fin 1\<rparr>"

text \<open>
  The RSI as the specification words it, bar by bar: the price change at a bar, the means
  of the gains and of the losses over the \<open>p\<close> bars ending at bar \<open>i\<close>, and the
  value obtained from their ratio.
\<close>

definition delta_at :: "real list \<Rightarrow> nat \<Rightarrow> real" where
  "delta_at s k = s ! k - s ! (k - 1)"

definition avg_gain_at :: "nat \<Rightarrow> real list \<Rightarrow> nat \<Rightarrow> real" where
  "avg_gain_at p s i = (\<Sum>k\<leftarrow>[Suc i - p..<Suc i]. max (delta_at s k) 0) / real p"

definition avg_loss_at :: "nat \<Rightarrow> real list \<Rightarrow> nat \<Rightarrow> real" where
  "avg_loss_at p s i = (\<Sum>k\<leftarrow>[Suc i - p..<Suc i]. max (- delta_at s k) 0) / real p"

definition rsi_spec :: "nat \<Rightarrow> real list \<Rightarrow> nat \<Rightarrow> fval" where
  "rsi_spec p s i =
     (if i < p then NaN
      else
        (let g = avg_gain_at p s i; l = avg_loss_at p s i
         in if l = 0 then (if 0 < g then Fin 100 else NaN)
            else Fin (100 - 100 / (1 + g / l))))"

text \<open>
  The two exponential averages as the specification words them: the smoothing factor of
  a span, the recurrence seeded with the first price, and the normalised weighted mean
  of the whole history with weight \<open>(1 - a) ^ k\<close> on the price \<open>k\<close> bars back.
\<close>

definition alpha_of :: "nat \<Rightarrow> real" where
  "alpha_of span_n = 2 / (real span_n + 1)"

fun ema_recursive :: "real \<Rightarrow> real list \<Rightarrow> nat \<Rightarrow> real" where
  "ema_recursive a price 0 = price ! 0"
| "ema_recursive a price (Suc t) = a * price ! Suc t + (1 - a) * ema_recursive a price t"

definition ema_adjusted :: "real \<Rightarrow> real list \<Rightarrow> nat \<Rightarrow> real" where
  "ema_adjusted a price t =
     (\<Sum>k\<le>t. (1 - a) ^ k * price ! (t - k)) / (\<Sum>k\<le>t. (1 - a) ^ k)"

text \<open>Concrete series: bars built from closes, numbered from 0.\<close>

definition mk_bar :: "nat \<Rightarrow> real \<Rightarrow> real bar" where
  "mk_bar t c = \<lparr>ts = t, Open = c, High = c, Low = c, Close = c, Volume = 0\<rparr>"

definition bars_of :: "real list \<Rightarrow> real bar list" where
  "bars_of closes = map (\<lambda>(t, c). mk_bar t c) (enumerate 0 closes)"

definition asc_closes :: "real list" where
  "asc_closes = [10, 11, 12, 13, 14, 15, 16, 17, 18, 19, 20, 21, 22, 23, 24, 25, 26, 27, 28, 29, 30]"

definition desc_closes :: "real list" where
  "desc_closes = [30, 29, 28, 27, 26, 25, 24, 23, 22, 21, 20, 19, 18, 17, 16]"

definition two_closes :: "real list" where
  "two_closes = [1, 2]"

definition asc_bars :: "real bar list" where
  "asc_bars = bars_of asc_closes"

definition desc_bars :: "real bar list" where
  "desc_bars = bars_of desc_closes"

definition two_bars :: "real bar list" where
  "two_bars = bars_of two_closes"

text \<open>
  The lines of a report, as Python's \<^verbatim>\<open>str.split\<close> on the newline character gives
  them, and a fetcher for a scan with two matches, one series below the threshold, one empty series
  and six failures.
\<close>

fun split_on :: "char \<Rightarrow> string \<Rightarrow> string list" where
  "split_on c [] = [[]]"
| "split_on c (x # xs) =
     (if x = c then [] # split_on c xs
      else (case split_on c xs of [] \<Rightarrow> [[x]] | y # ys \<Rightarrow> (x # y) # ys))"

definition fetch_demo :: "string \<Rightarrow> real bar list option" where
  "fetch_demo symbol =
     (if symbol = ''AAPL'' then Some asc_bars
      else if symbol = ''GOOG'' then Some desc_bars
      else if symbol = ''MSFT'' then Some []
      else if symbol = ''NVDA'' then Some asc_bars
      else None)"

section \<open>Signal aggregation\<close>

lemma buy_count_four:
  "buy_count [(''RSI'', a), (''MACD'', b), (''EMA'', c), (''SMA'', d)] = count_list [a, b, c, d] BUY"
  by (simp add: buy_count_def)

lemma count_four_le: "count_list [a, b, c, d] (x::signal) \<le> 4"
  by simp

lemma get_signals_shape:
  "\<exists>a b c d. get_signals df = [(''RSI'', a), (''MACD'', b), (''EMA'', c), (''SMA'', d)]"
  by (simp add: get_signals_def classify_def Let_def)

lemma buy_count_get_signals_le: "buy_count (get_signals df) \<le> 4"
proof -
  obtain a b c d where "get_signals df = [(''RSI'', a), (''MACD'', b), (''EMA'', c), (''SMA'', d)]"
    using get_signals_shape by blast
  then show ?thesis by (simp add: buy_count_def)
qed

lemma update_stock_data_events:
  "update_stock_data fetch symbol = [Error_emit] \<or>
   (\<exists>sigs df. update_stock_data fetch symbol =
      [Update_labels sigs, Update_overall (overall (buy_count sigs)), Update_chart df])"
  by (simp add: update_stock_data_def Let_def split: option.split)

text \<open>
  Claim C1. The overall recommendation depends on the signal set only through the number
  of BUY values among its four signals: it is BUY exactly when that number is at least 3,
  SELL exactly when it is at most 1, and HOLD exactly when it is 2. The classifier always
  returns a signal set with the four keys RSI, MACD, EMA, SMA, and a loaded stock's
  overall recommendation is this function of the signal set shown with it.
\<close>

theorem overall_majority:
  "(let s = [(''RSI'', a), (''MACD'', b), (''EMA'', c), (''SMA'', d)];
        n = count_list [a, b, c, d] BUY
    in buy_count s = n \<and> n \<le> 4 \<and>
       (overall (buy_count s) = BUY) = (3 \<le> n) \<and>
       (overall (buy_count s) = SELL) = (n \<le> 1) \<and>
       (overall (buy_count s) = HOLD) = (n = 2)) \<and>
   (\<exists>a' b' c' d'. get_signals df = [(''RSI'', a'), (''MACD'', b'), (''EMA'', c'), (''SMA'', d')]) \<and>
   (update_stock_data fetch symbol = [Error_emit] \<or>
    (\<exists>sigs df'. update_stock_data fetch symbol =
       [Update_labels sigs, Update_overall (overall (buy_count sigs)), Update_chart df']))"
proof -
  have shape: "\<exists>a' b' c' d'. get_signals df = [(''RSI'', a'), (''MACD'', b'), (''EMA'', c'), (''SMA'', d')]"
    by (rule get_signals_shape)
  have n4: "count_list [a, b, c, d] BUY \<le> 4" by (rule count_four_le)
  have main: "let s = [(''RSI'', a), (''MACD'', b), (''EMA'', c), (''SMA'', d)];
        n = count_list [a, b, c, d] BUY
    in buy_count s = n \<and> n \<le> 4 \<and>
       (overall (buy_count s) = BUY) = (3 \<le> n) \<and>
       (overall (buy_count s) = SELL) = (n \<le> 1) \<and>
       (overall (buy_count s) = HOLD) = (n = 2)"
    unfolding Let_def buy_count_four using n4 by (auto simp: overall_def)
  show ?thesis
    using main shape update_stock_data_events [of fetch symbol] by blast
qed

section \<open>The classifier's row\<close>

lemma filter_append_last:
  "P r \<Longrightarrow> list_all (\<lambda>x. \<not> P x) after \<Longrightarrow> last (filter P (before @ r # after)) = r"
  by (induction after) (simp_all add: list_all_iff filter_empty_conv)

lemma filter_none: "list_all (\<lambda>x. \<not> P x) xs \<Longrightarrow> filter P xs = []"
  by (simp add: list_all_iff filter_empty_conv)

text \<open>
  Claim C2. The classifier reads the most recent row in which RSI, MACD, Signal, EMA, SMA
  and Close are all defined, whatever the rows before it and the undefined rows after it
  hold; a frame with no such row gets HOLD for every indicator, as a value.
\<close>

theorem get_signals_latest_complete:
  "(list_all (\<lambda>x. \<not> complete_row x) df \<longrightarrow> get_signals df = hold_all) \<and>
   (complete_row r \<and> list_all (\<lambda>x. \<not> complete_row x) after \<longrightarrow>
      get_signals (before @ r # after) = classify r)"
proof (intro conjI impI)
  assume "list_all (\<lambda>x. \<not> complete_row x) df"
  then show "get_signals df = hold_all"
    by (simp add: get_signals_def dropna_def filter_none hold_all_def)
next
  assume h: "complete_row r \<and> list_all (\<lambda>x. \<not> complete_row x) after"
  define fs where "fs = filter complete_row (before @ r # after)"
  have l: "last fs = r"
    unfolding fs_def using h filter_append_last [of complete_row r after before] by blast
  have ne: "fs \<noteq> []"
    unfolding fs_def using h by (auto simp: filter_empty_conv)
  have "get_signals (before @ r # after) = (if fs = [] then hold_all else classify (last fs))"
    by (simp only: get_signals_def dropna_def Let_def fs_def hold_all_def)
  then show "get_signals (before @ r # after) = classify r"
    using l ne by simp
qed

theorem get_signals_latest_complete_witness:
  "list_all (\<lambda>x. \<not> complete_row x) [nan_row] \<and> get_signals [nan_row] = hold_all \<and>
   complete_row full_row \<and> get_signals ([nan_row] @ full_row # [nan_row]) = classify full_row"
  using get_signals_latest_complete [of "[nan_row]" full_row "[nan_row]" "[nan_row]"]
  by (simp add: complete_row_def nan_row_def full_row_def)

section \<open>The market scan\<close>

lemma scan_loop_acc:
  "scan_loop fetch syms acc = acc @ concat (map (scan_lines fetch) syms)"
  by (induction syms arbitrary: acc)
     (simp_all add: scan_lines_def scan_buy_count_def report_line_def Let_def split: option.split)

text \<open>
  Claim C8, as stated: with no match the report is "no strong BUY signals found". The
  program's text differs in its capital letter and its final full stop.
\<close>

theorem scan_sentinel_counterexample:
  "scan_loop fetch_fail tickers [] = [] \<and>
   scan_market fetch_fail \<noteq> [Update_scan_results ''no strong BUY signals found'']"
  by (simp add: scan_market_def scan_report_def tickers_def fetch_fail_def)

text \<open>
  Claim C8, amended. When no symbol of the watch-list reaches a buy count of 3, the report
  is exactly "No strong BUY signals found.".
\<close>

theorem scan_no_match_report:
  "list_all (\<lambda>s. case scan_buy_count fetch s of None \<Rightarrow> True | Some n \<Rightarrow> n < 3) syms \<Longrightarrow>
   scan_report (scan_loop fetch syms []) = ''No strong BUY signals found.''"
proof -
  assume h: "list_all (\<lambda>s. case scan_buy_count fetch s of None \<Rightarrow> True | Some n \<Rightarrow> n < 3) syms"
  have "concat (map (scan_lines fetch) syms) = []"
    using h by (induction syms) (auto simp: scan_lines_def split: option.splits)
  then have "scan_loop fetch syms [] = []"
    using scan_loop_acc [of fetch syms "[]"] by simp
  then show ?thesis by (simp add: scan_report_def)
qed

theorem scan_no_match_report_witness:
  "list_all (\<lambda>s. case scan_buy_count fetch_fail s of None \<Rightarrow> True | Some n \<Rightarrow> n < 3) tickers \<and>
   scan_report (scan_loop fetch_fail tickers []) = ''No strong BUY signals found.''"
  using scan_no_match_report [of fetch_fail tickers]
  by (simp add: tickers_def scan_buy_count_def fetch_fail_def)

section \<open>The indicator frame\<close>

lemma length_calculate_indicators: "length (calculate_indicators df) = length df"
  by (simp add: calculate_indicators_def Let_def split: prod.split)

lemma calculate_indicators_nth:
  "i < length df \<Longrightarrow>
   calculate_indicators df ! i =
     \<lparr>ts = ts (df ! i), Open = Fin (Open (df ! i)), High = Fin (High (df ! i)),
      Low = Fin (Low (df ! i)), Close = Fin (Close (df ! i)), Volume = Fin (Volume (df ! i)),
      EMA = Fin (ewm_mean 20 True (map Close df) ! i),
      SMA = of_opt (rolling_mean 10 (map Some (map Close df)) ! i),
      RSI = compute_rsi (map Close df) 14 ! i,
      MACD = Fin (fst (compute_macd (map Close df)) ! i),
      Signal = Fin (snd (compute_macd (map Close df)) ! i)\<rparr>"
  by (simp add: calculate_indicators_def Let_def split: prod.split)

text \<open>
  Claim C10. The frame with indicators has as many rows as the fetched series, and each
  row keeps the timestamp, Open, High, Low, Close and Volume of its bar.
\<close>

theorem calculate_indicators_keeps_bars:
  "length (calculate_indicators df) = length df \<and>
   map (\<lambda>r. (ts r, Open r, High r, Low r, Close r, Volume r)) (calculate_indicators df) =
   map (\<lambda>b. (ts b, Fin (Open b), Fin (High b), Fin (Low b), Fin (Close b), Fin (Volume b))) df"
proof
  show "length (calculate_indicators df) = length df"
    by (rule length_calculate_indicators)
  show "map (\<lambda>r. (ts r, Open r, High r, Low r, Close r, Volume r)) (calculate_indicators df) =
   map (\<lambda>b. (ts b, Fin (Open b), Fin (High b), Fin (Low b), Fin (Close b), Fin (Volume b))) df"
    by (rule nth_equalityI) (simp_all add: length_calculate_indicators calculate_indicators_nth)
qed

section \<open>Rolling means and the RSI\<close>

lemma length_diff: "length (diff s) = length s"
  by (cases s) simp_all

lemma diff_nth:
  "k < length s \<Longrightarrow> diff s ! k = (if k = 0 then None else Some (delta_at s k))"
proof (cases s)
  case Nil
  assume "k < length s"
  with Nil show ?thesis by simp
next
  case (Cons x xs)
  assume "k < length s"
  with Cons show ?thesis
    by (cases k) (simp_all add: delta_at_def)
qed

lemma length_rolling_mean: "length (rolling_mean n s) = length s"
  by (simp add: rolling_mean_def)

lemma take_drop_upt:
  "m + n \<le> length s \<Longrightarrow> take n (drop m s) = map ((!) s) [m..<m + n]"
  by (rule nth_equalityI) simp_all

lemma rolling_mean_after_nan:
  assumes p: "0 < p" and i: "i < length G"
    and G: "\<And>k. k < length G \<Longrightarrow> G ! k = (if k = 0 then None else Some (f k))"
  shows "rolling_mean p G ! i =
           (if i < p then None else Some ((\<Sum>k\<leftarrow>[Suc i - p..<Suc i]. f k) / real p))"
proof (cases "i < p")
  case True
  have "Suc i < p \<or> list_ex (\<lambda>v. v = None) (window p G i)"
  proof (cases "Suc i < p")
    case True
    then show ?thesis by simp
  next
    case False
    with \<open>i < p\<close> have e: "Suc i = p" by simp
    have "G \<noteq> []" using i by auto
    then have "G ! 0 = None" using G [of 0] by simp
    moreover have "0 < length (window p G i)"
      using e i p by (simp add: window_def)
    moreover have "window p G i ! 0 = G ! 0"
      using e i p by (simp add: window_def)
    ultimately have "None \<in> set (window p G i)"
      by (metis nth_mem)
    then show ?thesis by (auto simp: list_ex_iff)
  qed
  with True i show ?thesis
    by (simp add: rolling_mean_def Let_def)
next
  case False
  then have le: "p \<le> i" by simp
  have w: "window p G i = map ((!) G) [Suc i - p..<Suc i]"
    using take_drop_upt [of "Suc i - p" p G] le i by (simp add: window_def)
  have each: "\<And>k. k \<in> set [Suc i - p..<Suc i] \<Longrightarrow> G ! k = Some (f k)"
    using G le i p by auto
  have w2: "window p G i = map (\<lambda>k. Some (f k)) [Suc i - p..<Suc i]"
    unfolding w using each by (simp cong: map_cong)
  have no: "\<not> list_ex (\<lambda>v. v = None) (window p G i)"
    unfolding w2 by (auto simp: list_ex_iff)
  have sm: "sum_list (map the (window p G i)) = (\<Sum>k\<leftarrow>[Suc i - p..<Suc i]. f k)"
    unfolding w2 by (simp add: comp_def)
  show ?thesis
    using False le p i no sm by (simp add: rolling_mean_def Let_def)
qed

lemma rolling_mean_Some:
  assumes p: "0 < p" and i: "i < length s"
  shows "rolling_mean p (map Some s) ! i =
           (if Suc i < p then None else Some ((\<Sum>k\<leftarrow>[Suc i - p..<Suc i]. s ! k) / real p))"
proof (cases "Suc i < p")
  case True
  with i show ?thesis by (simp add: rolling_mean_def Let_def)
next
  case False
  then have le: "p \<le> Suc i" by simp
  have w: "window p (map Some s) i = map ((!) (map Some s)) [Suc i - p..<Suc i]"
    using take_drop_upt [of "Suc i - p" p "map Some s"] le i by (simp add: window_def)
  have each: "\<And>k. k \<in> set [Suc i - p..<Suc i] \<Longrightarrow> map Some s ! k = Some (s ! k)"
    using i by auto
  have w2: "window p (map Some s) i = map (\<lambda>k. Some (s ! k)) [Suc i - p..<Suc i]"
    unfolding w using each by (simp cong: map_cong)
  have no: "\<not> list_ex (\<lambda>v. v = None) (window p (map Some s) i)"
    unfolding w2 by (auto simp: list_ex_iff)
  have sm: "sum_list (map the (window p (map Some s) i)) = (\<Sum>k\<leftarrow>[Suc i - p..<Suc i]. s ! k)"
    unfolding w2 by (simp add: comp_def)
  show ?thesis
    using False p i no sm by (simp add: rolling_mean_def Let_def)
qed

lemma length_compute_rsi: "length (compute_rsi s p) = length s"
  by (simp add: compute_rsi_def Let_def length_rolling_mean clip_lower_def clip_upper_def
      scale_def length_diff)

lemma avg_gain_nth:
  assumes "0 < p" "i < length s"
  shows "rolling_mean p (clip_lower 0 (diff s)) ! i =
           (if i < p then None else Some (avg_gain_at p s i))"
proof -
  have "rolling_mean p (clip_lower 0 (diff s)) ! i =
      (if i < p then None
       else Some ((\<Sum>k\<leftarrow>[Suc i - p..<Suc i]. max (delta_at s k) 0) / real p))"
    by (rule rolling_mean_after_nan)
       (use assms in \<open>simp_all add: clip_lower_def length_diff diff_nth\<close>)
  then show ?thesis by (simp add: avg_gain_at_def)
qed

lemma avg_loss_nth:
  assumes "0 < p" "i < length s"
  shows "rolling_mean p (scale (- 1) (clip_upper 0 (diff s))) ! i =
           (if i < p then None else Some (avg_loss_at p s i))"
proof -
  have "rolling_mean p (scale (- 1) (clip_upper 0 (diff s))) ! i =
      (if i < p then None
       else Some ((\<Sum>k\<leftarrow>[Suc i - p..<Suc i]. max (- delta_at s k) 0) / real p))"
    by (rule rolling_mean_after_nan)
       (use assms in \<open>auto simp add: clip_upper_def scale_def length_diff diff_nth\<close>)
  then show ?thesis by (simp add: avg_loss_at_def)
qed

lemma avg_gain_nonneg: "0 \<le> avg_gain_at p s i"
  unfolding avg_gain_at_def by (intro divide_nonneg_nonneg sum_list_nonneg) auto

lemma avg_loss_nonneg: "0 \<le> avg_loss_at p s i"
  unfolding avg_loss_at_def by (intro divide_nonneg_nonneg sum_list_nonneg) auto

lemma rsi_formula:
  assumes "0 \<le> g" "0 \<le> l"
  shows "fsub (Fin 100) (fdiv (Fin 100) (fadd (Fin 1) (fdiv (Fin g) (Fin l)))) =
           (if l = 0 then (if 0 < g then Fin 100 else NaN)
            else Fin (100 - 100 / (1 + g / l)))"
proof (cases "l = 0")
  case True
  with assms show ?thesis by (cases "0 < g") (simp_all add: fsub_def)
next
  case False
  with assms have "0 \<le> g / l" by simp
  then have "1 + g / l \<noteq> 0" by linarith
  with False show ?thesis by (simp add: fsub_def)
qed

lemma compute_rsi_nth:
  assumes "0 < p" "i < length s"
  shows "compute_rsi s p ! i = rsi_spec p s i"
proof -
  let ?ag = "rolling_mean p (clip_lower 0 (diff s))"
  let ?al = "rolling_mean p (scale (- 1) (clip_upper 0 (diff s)))"
  have len: "length ?ag = length s" "length ?al = length s"
    by (simp_all add: length_rolling_mean clip_lower_def clip_upper_def scale_def length_diff)
  have "compute_rsi s p ! i =
          fsub (Fin 100) (fdiv (Fin 100) (fadd (Fin 1) (fdiv (of_opt (?ag ! i)) (of_opt (?al ! i)))))"
    using assms len by (simp add: compute_rsi_def Let_def)
  also have "\<dots> = rsi_spec p s i"
  proof (cases "i < p")
    case True
    then show ?thesis
      using assms by (simp add: avg_gain_nth avg_loss_nth rsi_spec_def fsub_def)
  next
    case False
    then show ?thesis
      using assms rsi_formula [OF avg_gain_nonneg avg_loss_nonneg, of p s i p s i]
      by (simp add: avg_gain_nth avg_loss_nth rsi_spec_def Let_def)
  qed
  finally show ?thesis .
qed

lemma rsi_spec_range:
  "case rsi_spec p s i of Fin r \<Rightarrow> 0 \<le> r \<and> r \<le> 100 | NaN \<Rightarrow> True | _ \<Rightarrow> False"
proof -
  have g: "0 \<le> avg_gain_at p s i" by (rule avg_gain_nonneg)
  have l: "0 \<le> avg_loss_at p s i" by (rule avg_loss_nonneg)
  have "0 \<le> 100 - 100 / (1 + avg_gain_at p s i / avg_loss_at p s i) \<and>
        100 - 100 / (1 + avg_gain_at p s i / avg_loss_at p s i) \<le> 100"
  proof -
    have q: "0 \<le> avg_gain_at p s i / avg_loss_at p s i" using g l by simp
    then have "1 \<le> 1 + avg_gain_at p s i / avg_loss_at p s i" by simp
    then have "100 / (1 + avg_gain_at p s i / avg_loss_at p s i) \<le> 100"
      by (simp add: divide_le_eq)
    moreover have "0 \<le> 100 / (1 + avg_gain_at p s i / avg_loss_at p s i)"
      using q by simp
    ultimately show ?thesis by simp
  qed
  then show ?thesis by (simp add: rsi_spec_def Let_def)
qed

text \<open>Windows of a monotone series.\<close>

lemma window_mean_ge:
  assumes "0 < p" "p \<le> Suc i" "\<And>k. Suc i - p \<le> k \<Longrightarrow> k \<le> i \<Longrightarrow> (c::real) \<le> f k"
  shows "c \<le> (\<Sum>k\<leftarrow>[Suc i - p..<Suc i]. f k) / real p"
proof -
  have "(\<Sum>k\<leftarrow>[Suc i - p..<Suc i]. c) \<le> (\<Sum>k\<leftarrow>[Suc i - p..<Suc i]. f k)"
    by (rule sum_list_mono) (use assms(3) in \<open>simp del: upt_Suc\<close>)
  moreover have "(\<Sum>k\<leftarrow>[Suc i - p..<Suc i]. c) = real p * c"
    using assms(2) by (simp add: sum_list_triv del: upt_Suc)
  ultimately show ?thesis
    using assms(1) by (simp add: le_divide_eq mult.commute)
qed

lemma window_mean_less:
  assumes "2 \<le> p" "p \<le> Suc i" "\<And>k. Suc i - p \<le> k \<Longrightarrow> k < i \<Longrightarrow> f k < (f i::real)"
  shows "(\<Sum>k\<leftarrow>[Suc i - p..<Suc i]. f k) / real p < f i"
proof -
  have split: "[Suc i - p..<Suc i] = [Suc i - p..<i] @ [i]"
    using assms(1,2) by simp
  have ne: "[Suc i - p..<i] \<noteq> []"
    using assms(1,2) by simp
  have "(\<Sum>k\<leftarrow>[Suc i - p..<i]. f k) < (\<Sum>k\<leftarrow>[Suc i - p..<i]. f i)"
    by (rule sum_list_strict_mono [OF ne]) (use assms(3) in auto)
  moreover have "(\<Sum>k\<leftarrow>[Suc i - p..<i]. f i) = real (i - (Suc i - p)) * f i"
    by (simp add: sum_list_triv)
  moreover have "real (i - (Suc i - p)) + 1 = real p"
    using assms(1,2) by (simp add: of_nat_diff)
  ultimately have "(\<Sum>k\<leftarrow>[Suc i - p..<Suc i]. f k) < real p * f i"
    unfolding split by (simp add: algebra_simps)
  then show ?thesis
    using assms(1) by (simp add: divide_less_eq mult.commute)
qed

lemma window_sum_zero:
  assumes "\<And>k. m \<le> k \<Longrightarrow> k < n \<Longrightarrow> f k = (0::real)"
  shows "(\<Sum>k\<leftarrow>[m..<n]. f k) = 0"
proof -
  have e: "map f [m..<n] = map (\<lambda>k. 0) [m..<n]"
    by (rule map_cong) (use assms in auto)
  show ?thesis unfolding e by simp
qed

lemma window_sum_pos:
  assumes "m < n" "\<And>k. m \<le> k \<Longrightarrow> k < n \<Longrightarrow> (0::real) < f k"
  shows "0 < (\<Sum>k\<leftarrow>[m..<n]. f k)"
proof -
  have ne: "[m..<n] \<noteq> []" using assms(1) by simp
  have "(\<Sum>k\<leftarrow>[m..<n]. 0::real) < (\<Sum>k\<leftarrow>[m..<n]. f k)"
    by (rule sum_list_strict_mono [OF ne]) (use assms(2) in auto)
  then show ?thesis by simp
qed

lemma delta_neg:
  "sorted_wrt (>) s \<Longrightarrow> 0 < k \<Longrightarrow> k < length s \<Longrightarrow> delta_at s k < 0"
  using sorted_wrt_nth_less [of "(>)" s "k - 1" k] by (simp add: delta_at_def)

lemma delta_pos:
  "sorted_wrt (<) s \<Longrightarrow> 0 < k \<Longrightarrow> k < length s \<Longrightarrow> 0 < delta_at s k"
  using sorted_wrt_nth_less [of "(<)" s "k - 1" k] by (simp add: delta_at_def)

lemma rsi_decreasing:
  assumes s: "sorted_wrt (>) s" and p: "0 < p" "p \<le> i" and i: "i < length s"
  shows "rsi_spec p s i = Fin 0"
proof -
  have d: "delta_at s k < 0" if "Suc i - p \<le> k" "k < Suc i" for k
    using delta_neg [OF s, of k] p i that by simp
  have "(\<Sum>k\<leftarrow>[Suc i - p..<Suc i]. max (delta_at s k) 0) = 0"
  proof (rule window_sum_zero)
    fix k assume "Suc i - p \<le> k" "k < Suc i"
    then have "delta_at s k < 0" by (rule d)
    then show "max (delta_at s k) 0 = 0" by simp
  qed
  then have g: "avg_gain_at p s i = 0"
    by (simp add: avg_gain_at_def del: upt_Suc)
  have "0 < (\<Sum>k\<leftarrow>[Suc i - p..<Suc i]. max (- delta_at s k) 0)"
  proof (rule window_sum_pos)
    show "Suc i - p < Suc i" using p by simp
    fix k assume "Suc i - p \<le> k" "k < Suc i"
    then have "delta_at s k < 0" by (rule d)
    then show "0 < max (- delta_at s k) 0" by simp
  qed
  then have l: "0 < avg_loss_at p s i"
    using p by (simp add: avg_loss_at_def del: upt_Suc)
  show ?thesis
    using g l p by (simp add: rsi_spec_def Let_def)
qed

lemma rsi_increasing:
  assumes s: "sorted_wrt (<) s" and p: "0 < p" "p \<le> i" and i: "i < length s"
  shows "rsi_spec p s i = Fin 100"
proof -
  have d: "0 < delta_at s k" if "Suc i - p \<le> k" "k < Suc i" for k
    using delta_pos [OF s, of k] p i that by simp
  have "(\<Sum>k\<leftarrow>[Suc i - p..<Suc i]. max (- delta_at s k) 0) = 0"
  proof (rule window_sum_zero)
    fix k assume "Suc i - p \<le> k" "k < Suc i"
    then have "0 < delta_at s k" by (rule d)
    then show "max (- delta_at s k) 0 = 0" by simp
  qed
  then have l: "avg_loss_at p s i = 0"
    by (simp add: avg_loss_at_def del: upt_Suc)
  have "0 < (\<Sum>k\<leftarrow>[Suc i - p..<Suc i]. max (delta_at s k) 0)"
  proof (rule window_sum_pos)
    show "Suc i - p < Suc i" using p by simp
    fix k assume "Suc i - p \<le> k" "k < Suc i"
    then have "0 < delta_at s k" by (rule d)
    then show "0 < max (delta_at s k) 0" by simp
  qed
  then have g: "0 < avg_gain_at p s i"
    using p by (simp add: avg_gain_at_def del: upt_Suc)
  show ?thesis
    using g l p by (simp add: rsi_spec_def Let_def)
qed

text \<open>The concrete series.\<close>

lemma map_Close_enumerate:
  "map Close (map (\<lambda>(t, c). mk_bar t c) (enumerate n closes)) = closes"
  by (induction closes arbitrary: n) (simp_all add: mk_bar_def)

lemma map_Close_bars_of: "map Close (bars_of closes) = closes"
  unfolding bars_of_def by (rule map_Close_enumerate)

lemma length_bars_of: "length (bars_of closes) = length closes"
  by (simp add: bars_of_def)

lemma asc_closes_upt: "asc_closes = map (\<lambda>k. 10 + real k) [0..<21]"
  by (simp add: asc_closes_def upt_rec)

lemma asc_closes_nth: "k < 21 \<Longrightarrow> asc_closes ! k = 10 + real k"
  by (simp add: asc_closes_upt del: upt_Suc)

lemma asc_closes_sorted: "sorted_wrt (<) asc_closes"
  by (simp add: asc_closes_def)

lemma desc_closes_sorted: "sorted_wrt (>) desc_closes"
  by (simp add: desc_closes_def)

lemma asc_closes_step: "Suc k < length asc_closes \<Longrightarrow> asc_closes ! Suc k - asc_closes ! k = 1"
proof -
  assume "Suc k < length asc_closes"
  then have "Suc k < 21" by (simp add: asc_closes_def)
  then show ?thesis
    using asc_closes_nth [of "Suc k"] asc_closes_nth [of k] by simp
qed

text \<open>
  Claim C3. At bar \<open>i\<close> of any close-price series the RSI of period 14 is undefined for
  the first 14 bars; from bar 14 on it is 100 - 100 / (1 + RS) with RS = avgGain / avgLoss,
  the means over the trailing 14 bars of max(delta, 0) and max(-delta, 0); it is 100 when
  avgLoss = 0 and avgGain > 0, and undefined when both are 0. Both means are never
  negative, and the RSI series is as long as the input.
\<close>

theorem compute_rsi_formula:
  "i < length s \<Longrightarrow>
   compute_rsi s 14 ! i =
     (if i < 14 then NaN
      else if avg_loss_at 14 s i = 0 then (if 0 < avg_gain_at 14 s i then Fin 100 else NaN)
      else Fin (100 - 100 / (1 + avg_gain_at 14 s i / avg_loss_at 14 s i))) \<and>
   0 \<le> avg_gain_at 14 s i \<and> 0 \<le> avg_loss_at 14 s i \<and>
   length (compute_rsi s 14) = length s"
  using compute_rsi_nth [of 14 i s] avg_gain_nonneg [of 14 s i] avg_loss_nonneg [of 14 s i]
  by (simp add: rsi_spec_def Let_def length_compute_rsi)

theorem compute_rsi_formula_witness:
  "(20::nat) < length asc_closes \<and> compute_rsi asc_closes 14 ! 20 = Fin 100 \<and>
   (3::nat) < length asc_closes \<and> compute_rsi asc_closes 14 ! 3 = NaN \<and>
   (14::nat) < length desc_closes \<and> compute_rsi desc_closes 14 ! 14 = Fin 0"
proof -
  have l: "(20::nat) < length asc_closes" "(3::nat) < length asc_closes"
    "(14::nat) < length desc_closes"
    by (simp_all add: asc_closes_def desc_closes_def)
  have a: "rsi_spec 14 asc_closes 20 = Fin 100"
    by (rule rsi_increasing [OF asc_closes_sorted]) (simp_all add: asc_closes_def)
  have d: "rsi_spec 14 desc_closes 14 = Fin 0"
    by (rule rsi_decreasing [OF desc_closes_sorted]) (simp_all add: desc_closes_def)
  show ?thesis
    using compute_rsi_formula [OF l(1)] compute_rsi_formula [OF l(2)]
      compute_rsi_formula [OF l(3)] a d l
    by (simp add: rsi_spec_def Let_def)
qed

text \<open>
  Claim C9. At every bar of every close-price series the RSI is either undefined or a
  finite value between 0 and 100, bounds included.
\<close>

theorem compute_rsi_range:
  "i < length s \<Longrightarrow>
   compute_rsi s 14 ! i = NaN \<or>
   (\<exists>r. compute_rsi s 14 ! i = Fin r \<and> 0 \<le> r \<and> r \<le> 100)"
  using compute_rsi_nth [of 14 i s] rsi_spec_range [of 14 s i]
  by (auto split: fval.splits)

theorem compute_rsi_range_witness:
  "(14::nat) < length desc_closes \<and>
   (compute_rsi desc_closes 14 ! 14 = NaN \<or>
    (\<exists>r. compute_rsi desc_closes 14 ! 14 = Fin r \<and> 0 \<le> r \<and> r \<le> 100))"
  using compute_rsi_range [of 14 desc_closes]
  by (simp add: desc_closes_def)

section \<open>Exponential averages\<close>

lemma length_ewm_loop: "length (ewm_loop a adj w ow vals) = length vals"
  by (induction vals arbitrary: w ow) (simp_all add: Let_def)

lemma length_ewm_mean: "length (ewm_mean n adj s) = length s"
  by (cases s) (simp_all add: ewm_mean_def length_ewm_loop)

lemma ewm_loop_plain_Cons:
  "ewm_loop a False w 1 (cur # vals) =
     (a * cur + (1 - a) * w) # ewm_loop a False (a * cur + (1 - a) * w) 1 vals"
  by (simp add: Let_def add.commute)

lemma ewm_loop_plain_step:
  "j < length vals \<Longrightarrow>
   (v # ewm_loop a False v 1 vals) ! Suc j =
     a * vals ! j + (1 - a) * (v # ewm_loop a False v 1 vals) ! j"
proof (induction vals arbitrary: v j)
  case Nil
  then show ?case by simp
next
  case (Cons cur vals)
  show ?case
  proof (cases j)
    case 0
    then show ?thesis by (simp only: ewm_loop_plain_Cons) simp
  next
    case (Suc j')
    with Cons.prems have "j' < length vals" by simp
    from Cons.IH [OF this, of "a * cur + (1 - a) * v"] Suc
    show ?thesis by (simp only: ewm_loop_plain_Cons) simp
  qed
qed

lemma ewm_mean_plain:
  "t < length s \<Longrightarrow> ewm_mean n False s ! t = ema_recursive (alpha_of n) s t"
proof (induction t)
  case 0
  then show ?case by (cases s) (simp_all add: ewm_mean_def)
next
  case (Suc t)
  then obtain v vals where s: "s = v # vals" by (cases s) auto
  with Suc.prems have t: "t < length vals" by simp
  have "ewm_mean n False s ! Suc t =
          alpha_of n * vals ! t + (1 - alpha_of n) * ewm_mean n False s ! t"
    using ewm_loop_plain_step [OF t, of v "alpha_of n"]
    by (simp add: ewm_mean_def s alpha_of_def)
  with Suc s show ?case by simp
qed

lemma ewm_loop_adjust_Cons:
  "ewm_loop a True w ow (cur # vals) =
     ((ow * (1 - a) * w + cur) / (ow * (1 - a) + 1)) #
       ewm_loop a True ((ow * (1 - a) * w + cur) / (ow * (1 - a) + 1)) (ow * (1 - a) + 1) vals"
  by (simp add: Let_def)

lemma sum_shift_Cons:
  "(\<Sum>k\<le>Suc j. q ^ k * (cur # vals) ! (Suc j - k)) =
     (\<Sum>k\<le>j. q ^ k * vals ! (j - k)) + q ^ Suc j * (cur::real)"
proof -
  have "(\<Sum>k\<le>j. q ^ k * (cur # vals) ! (Suc j - k)) = (\<Sum>k\<le>j. q ^ k * vals ! (j - k))"
    by (rule sum.cong) (simp_all add: Suc_diff_le)
  then show ?thesis by simp
qed

lemma ewm_loop_adjust_nth:
  assumes "0 < ow" "0 \<le> 1 - a" "j < length vals"
  shows "ewm_loop a True w ow vals ! j =
           ((\<Sum>k\<le>j. (1 - a) ^ k * vals ! (j - k)) + (1 - a) ^ Suc j * (w * ow)) /
           ((\<Sum>k\<le>j. (1 - a) ^ k) + (1 - a) ^ Suc j * ow)"
  using assms
proof (induction vals arbitrary: w ow j)
  case Nil
  then show ?case by simp
next
  case (Cons cur vals)
  define ow2 where "ow2 = ow * (1 - a) + 1"
  define w1 where "w1 = (ow * (1 - a) * w + cur) / ow2"
  have ow2: "0 < ow2"
    unfolding ow2_def using Cons.prems(1,2)
    by (meson add_nonneg_pos less_eq_real_def mult_nonneg_nonneg zero_less_one)
  have w1: "w1 * ow2 = ow * (1 - a) * w + cur"
    unfolding w1_def using ow2 by simp
  have unfold: "ewm_loop a True w ow (cur # vals) = w1 # ewm_loop a True w1 ow2 vals"
    unfolding w1_def ow2_def by (rule ewm_loop_adjust_Cons)
  show ?case
  proof (cases j)
    case 0
    have "w1 = (cur + (1 - a) * (w * ow)) / (1 + (1 - a) * ow)"
      unfolding w1_def ow2_def by (simp add: algebra_simps)
    with 0 unfold show ?thesis by simp
  next
    case (Suc j')
    with Cons.prems have j': "j' < length vals" by simp
    have ih: "ewm_loop a True w1 ow2 vals ! j' =
           ((\<Sum>k\<le>j'. (1 - a) ^ k * vals ! (j' - k)) + (1 - a) ^ Suc j' * (w1 * ow2)) /
           ((\<Sum>k\<le>j'. (1 - a) ^ k) + (1 - a) ^ Suc j' * ow2)"
      by (rule Cons.IH [OF ow2 Cons.prems(2) j'])
    have num: "(\<Sum>k\<le>Suc j'. (1 - a) ^ k * (cur # vals) ! (Suc j' - k)) + (1 - a) ^ Suc (Suc j') * (w * ow)
             = (\<Sum>k\<le>j'. (1 - a) ^ k * vals ! (j' - k)) + (1 - a) ^ Suc j' * (w1 * ow2)"
      unfolding w1 sum_shift_Cons by (simp add: algebra_simps)
    have den: "(\<Sum>k\<le>Suc j'. (1 - a) ^ k) + (1 - a) ^ Suc (Suc j') * ow
             = (\<Sum>k\<le>j'. (1 - a) ^ k) + (1 - a) ^ Suc j' * ow2"
      unfolding ow2_def by (simp add: algebra_simps)
    have "ewm_loop a True w ow (cur # vals) ! j = ewm_loop a True w1 ow2 vals ! j'"
      using unfold Suc by simp
    then show ?thesis
      unfolding Suc ih num [symmetric] den [symmetric] .
  qed
qed

lemma alpha_of_range: "0 < n \<Longrightarrow> 0 < alpha_of n \<and> 0 \<le> 1 - alpha_of n \<and> 1 - alpha_of n < 1"
  by (simp add: alpha_of_def)

lemma ewm_mean_adjust:
  assumes "0 < n" "t < length s"
  shows "ewm_mean n True s ! t = ema_adjusted (alpha_of n) s t"
proof (cases t)
  case 0
  with assms show ?thesis by (cases s) (simp_all add: ewm_mean_def ema_adjusted_def)
next
  case (Suc j)
  from assms obtain v vals where s: "s = v # vals" by (cases s) auto
  with Suc assms have j: "j < length vals" by simp
  have q: "0 \<le> 1 - alpha_of n" using alpha_of_range [OF assms(1)] by simp
  have "ewm_mean n True s ! t = ewm_loop (alpha_of n) True v 1 vals ! j"
    by (simp add: ewm_mean_def s Suc alpha_of_def)
  also have "\<dots> = ((\<Sum>k\<le>j. (1 - alpha_of n) ^ k * vals ! (j - k)) + (1 - alpha_of n) ^ Suc j * (v * 1)) /
           ((\<Sum>k\<le>j. (1 - alpha_of n) ^ k) + (1 - alpha_of n) ^ Suc j * 1)"
    by (rule ewm_loop_adjust_nth [OF _ q j]) simp
  also have "\<dots> = ema_adjusted (alpha_of n) s t"
    unfolding ema_adjusted_def s Suc sum_shift_Cons by simp
  finally show ?thesis .
qed

lemma length_compute_macd:
  "length (fst (compute_macd s)) = length s" "length (snd (compute_macd s)) = length s"
  by (simp_all add: compute_macd_def Let_def length_ewm_mean)

lemma macd_nth:
  "t < length s \<Longrightarrow>
   fst (compute_macd s) ! t =
     ema_recursive (alpha_of 12) s t - ema_recursive (alpha_of 26) s t"
  by (simp add: compute_macd_def Let_def length_ewm_mean ewm_mean_plain)

lemma signal_nth:
  "t < length s \<Longrightarrow>
   snd (compute_macd s) ! t = ema_recursive (alpha_of 9) (fst (compute_macd s)) t"
proof -
  assume t: "t < length s"
  have "snd (compute_macd s) = ewm_mean 9 False (fst (compute_macd s))"
    by (simp add: compute_macd_def Let_def)
  then show ?thesis
    using ewm_mean_plain [of t "fst (compute_macd s)" 9] t length_compute_macd(1) [of s]
    by simp
qed

lemma ema_forms:
  "t < length df \<Longrightarrow>
   (let closes = map Close df;
        r = calculate_indicators df ! t;
        macd = (\<lambda>k. ema_recursive (alpha_of 12) closes k - ema_recursive (alpha_of 26) closes k)
    in compute_macd closes =
         (map macd [0..<length df],
          map (ema_recursive (alpha_of 9) (map macd [0..<length df])) [0..<length df]) \<and>
       MACD r = Fin (macd t) \<and>
       Signal r = Fin (ema_recursive (alpha_of 9) (map macd [0..<length df]) t) \<and>
       EMA r = Fin (ema_adjusted (alpha_of 20) closes t)) \<and>
   alpha_of 20 = 2 / 21 \<and>
   ema_adjusted (alpha_of 20) two_closes 1 = 61 / 40 \<and>
   ema_recursive (alpha_of 20) two_closes 1 = 23 / 21"
proof -
  assume t: "t < length df"
  define closes where "closes = map Close df"
  define macd where
    "macd = (\<lambda>k. ema_recursive (alpha_of 12) closes k - ema_recursive (alpha_of 26) closes k)"
  have len: "length closes = length df" by (simp add: closes_def)
  have m: "fst (compute_macd closes) = map macd [0..<length df]"
    by (rule nth_equalityI) (simp_all add: length_compute_macd len macd_nth macd_def)
  have s: "snd (compute_macd closes) =
             map (ema_recursive (alpha_of 9) (map macd [0..<length df])) [0..<length df]"
    by (rule nth_equalityI) (simp_all add: length_compute_macd len signal_nth m)
  have pair: "compute_macd closes =
         (map macd [0..<length df],
          map (ema_recursive (alpha_of 9) (map macd [0..<length df])) [0..<length df])"
    using m s by (simp add: prod_eq_iff)
  have r1: "MACD (calculate_indicators df ! t) = Fin (macd t)"
    using t m by (simp add: calculate_indicators_nth closes_def [symmetric])
  have r2: "Signal (calculate_indicators df ! t) =
              Fin (ema_recursive (alpha_of 9) (map macd [0..<length df]) t)"
    using t s by (simp add: calculate_indicators_nth closes_def [symmetric])
  have r3: "EMA (calculate_indicators df ! t) = Fin (ema_adjusted (alpha_of 20) closes t)"
    using t ewm_mean_adjust [of 20 t closes]
    by (simp add: calculate_indicators_nth closes_def [symmetric] len)
  have a: "alpha_of 20 = 2 / 21" by (simp add: alpha_of_def)
  have e1: "ema_adjusted (alpha_of 20) two_closes 1 = 61 / 40"
    by (simp add: a ema_adjusted_def two_closes_def)
  have e2: "ema_recursive (alpha_of 20) two_closes 1 = 23 / 21"
    by (simp add: a two_closes_def)
  from pair r1 r2 r3 have main:
    "let closes = map Close df;
         r = calculate_indicators df ! t;
         macd = (\<lambda>k. ema_recursive (alpha_of 12) closes k - ema_recursive (alpha_of 26) closes k)
     in compute_macd closes =
          (map macd [0..<length df],
           map (ema_recursive (alpha_of 9) (map macd [0..<length df])) [0..<length df]) \<and>
        MACD r = Fin (macd t) \<and>
        Signal r = Fin (ema_recursive (alpha_of 9) (map macd [0..<length df]) t) \<and>
        EMA r = Fin (ema_adjusted (alpha_of 20) closes t)"
    unfolding Let_def closes_def macd_def by blast
  show ?thesis
    using main a e1 e2 by blast
qed

text \<open>
  Claim C4. MACD is the recursive EMA of span 12 minus the recursive EMA of span 26 of the
  closes, the Signal line is the recursive EMA of span 9 of the MACD series, and the EMA
  column is the adjusted weighted mean of span 20 (alpha = 2/21). The two forms are
  different functions: on the closes 1, 2 the adjusted form gives 61/40 and the recursive
  form 23/21, so the two computations of span 20 differ there.
\<close>

theorem ema_conventions:
  "t < length df \<Longrightarrow>
   (let closes = map Close df;
        r = calculate_indicators df ! t;
        macd = (\<lambda>k. ema_recursive (alpha_of 12) closes k - ema_recursive (alpha_of 26) closes k)
    in compute_macd closes =
         (map macd [0..<length df],
          map (ema_recursive (alpha_of 9) (map macd [0..<length df])) [0..<length df]) \<and>
       MACD r = Fin (macd t) \<and>
       Signal r = Fin (ema_recursive (alpha_of 9) (map macd [0..<length df]) t) \<and>
       EMA r = Fin (ema_adjusted (alpha_of 20) closes t)) \<and>
   alpha_of 20 = 2 / 21 \<and>
   ema_adjusted (alpha_of 20) two_closes 1 = 61 / 40 \<and>
   ema_recursive (alpha_of 20) two_closes 1 = 23 / 21 \<and>
   ewm_mean 20 True two_closes \<noteq> ewm_mean 20 False two_closes"
proof -
  assume t: "t < length df"
  have ne: "ewm_mean 20 True two_closes \<noteq> ewm_mean 20 False two_closes"
    by (simp add: ewm_mean_def two_closes_def Let_def)
  show ?thesis using ema_forms [OF t] ne by blast
qed

theorem ema_conventions_witness:
  "(1::nat) < length two_bars \<and>
   EMA (calculate_indicators two_bars ! 1) = Fin (61 / 40) \<and>
   MACD (calculate_indicators two_bars ! 1) = Fin (28 / 351) \<and>
   Signal (calculate_indicators two_bars ! 1) = Fin (28 / 1755)"
proof -
  have l: "(1::nat) < length two_bars"
    by (simp add: two_bars_def length_bars_of two_closes_def)
  have c: "map Close two_bars = two_closes"
    unfolding two_bars_def by (rule map_Close_bars_of)
  have n: "length two_bars = 2"
    by (simp add: two_bars_def length_bars_of two_closes_def)
  have u: "[0..<2] = [0, 1]" by (simp add: upt_rec)
  show ?thesis
    using ema_conventions [OF l] l
    by (simp add: Let_def c n u two_closes_def alpha_of_def)
qed

section \<open>Monotone series\<close>

lemma adjusted_weight_pos:
  assumes "0 \<le> (q::real)"
  shows "0 < (\<Sum>k\<le>t. q ^ k)"
proof -
  have "q ^ 0 \<le> (\<Sum>k\<le>t. q ^ k)"
    by (rule member_le_sum) (use assms in auto)
  then show ?thesis by simp
qed

lemma ema_adjusted_ge:
  assumes q: "0 \<le> 1 - a" and p: "\<And>k. k \<le> t \<Longrightarrow> price ! t \<le> price ! (t - k)"
  shows "price ! t \<le> ema_adjusted a price t"
proof -
  have D: "0 < (\<Sum>k\<le>t. (1 - a) ^ k)" by (rule adjusted_weight_pos [OF q])
  have "(\<Sum>k\<le>t. (1 - a) ^ k * price ! t) \<le> (\<Sum>k\<le>t. (1 - a) ^ k * price ! (t - k))"
    by (rule sum_mono) (use q p in \<open>simp add: mult_left_mono\<close>)
  then have "price ! t * (\<Sum>k\<le>t. (1 - a) ^ k) \<le> (\<Sum>k\<le>t. (1 - a) ^ k * price ! (t - k))"
    by (simp add: sum_distrib_left mult.commute)
  then show ?thesis
    unfolding ema_adjusted_def using D by (simp add: le_divide_eq)
qed

lemma ema_adjusted_less:
  assumes q: "0 < 1 - a" and t: "0 < t"
    and p: "\<And>k. k \<le> t \<Longrightarrow> price ! (t - k) \<le> price ! t" and p0: "price ! 0 < price ! t"
  shows "ema_adjusted a price t < price ! t"
proof -
  have D: "0 < (\<Sum>k\<le>t. (1 - a) ^ k)" by (rule adjusted_weight_pos) (use q in simp)
  have "(\<Sum>k\<le>t. (1 - a) ^ k * price ! (t - k)) < (\<Sum>k\<le>t. (1 - a) ^ k * price ! t)"
  proof (rule sum_strict_mono_ex1)
    show "finite {..t}" by simp
    show "\<forall>k\<in>{..t}. (1 - a) ^ k * price ! (t - k) \<le> (1 - a) ^ k * price ! t"
      using q p by (simp add: mult_left_mono)
    show "\<exists>k\<in>{..t}. (1 - a) ^ k * price ! (t - k) < (1 - a) ^ k * price ! t"
      using q p0 by (intro bexI [of _ t]) simp_all
  qed
  then have "(\<Sum>k\<le>t. (1 - a) ^ k * price ! (t - k)) < price ! t * (\<Sum>k\<le>t. (1 - a) ^ k)"
    by (simp add: sum_distrib_left mult.commute)
  then show ?thesis
    unfolding ema_adjusted_def using D by (simp add: divide_less_eq)
qed

lemma ema_recursive_lag:
  assumes a: "0 < a" "a < 1" and inc: "\<And>k. Suc k < length m \<Longrightarrow> m ! k < m ! Suc k"
  shows "t < length m \<Longrightarrow>
         ema_recursive a m t \<le> m ! t \<and> (0 < t \<longrightarrow> ema_recursive a m t < m ! t)"
proof (induction t)
  case 0
  then show ?case by simp
next
  case (Suc t)
  then have ih: "ema_recursive a m t \<le> m ! t" by simp
  have "m ! t < m ! Suc t" using inc Suc.prems by simp
  with ih have "ema_recursive a m t < m ! Suc t" by simp
  then have "(1 - a) * ema_recursive a m t < (1 - a) * m ! Suc t"
    using a by simp
  then have "a * m ! Suc t + (1 - a) * ema_recursive a m t < a * m ! Suc t + (1 - a) * m ! Suc t"
    by simp
  also have "\<dots> = m ! Suc t" by (simp add: algebra_simps)
  finally show ?case by simp
qed

lemma ema_recursive_step_linear:
  assumes step: "\<And>k. Suc k < length p \<Longrightarrow> p ! Suc k - p ! k = c"
  shows "Suc t < length p \<Longrightarrow>
         ema_recursive a p (Suc t) - ema_recursive a p t = c * (1 - (1 - a) ^ Suc t)"
proof (induction t)
  case 0
  have "ema_recursive a p (Suc 0) - ema_recursive a p 0 = a * (p ! Suc 0 - p ! 0)"
    by (simp add: algebra_simps)
  also have "\<dots> = a * c" using step [of 0] 0 by simp
  finally show ?case by (simp add: algebra_simps)
next
  case (Suc t)
  then have ih: "ema_recursive a p (Suc t) - ema_recursive a p t = c * (1 - (1 - a) ^ Suc t)"
    by simp
  have "ema_recursive a p (Suc (Suc t)) - ema_recursive a p (Suc t) =
          a * (p ! Suc (Suc t) - p ! Suc t) +
          (1 - a) * (ema_recursive a p (Suc t) - ema_recursive a p t)"
    by (simp add: algebra_simps)
  also have "\<dots> = a * c + (1 - a) * (c * (1 - (1 - a) ^ Suc t))"
    using step [of "Suc t"] Suc.prems ih by simp
  also have "\<dots> = c * (1 - (1 - a) ^ Suc (Suc t))"
    by (simp add: algebra_simps)
  finally show ?case .
qed

lemma macd_rises_on_linear:
  assumes step: "\<And>k. Suc k < length s \<Longrightarrow> s ! Suc k - s ! k = c" and c: "0 < c"
    and k: "Suc k < length s"
  shows "fst (compute_macd s) ! k < fst (compute_macd s) ! Suc k"
proof -
  have q: "1 - alpha_of 12 < 1 - alpha_of 26" "0 \<le> 1 - alpha_of 12"
    by (simp_all add: alpha_of_def)
  have pw: "(1 - alpha_of 12) ^ Suc k < (1 - alpha_of 26) ^ Suc k"
    by (rule power_strict_mono [OF q]) simp
  have d12: "ema_recursive (alpha_of 12) s (Suc k) - ema_recursive (alpha_of 12) s k =
               c * (1 - (1 - alpha_of 12) ^ Suc k)"
    by (rule ema_recursive_step_linear [OF step k])
  have d26: "ema_recursive (alpha_of 26) s (Suc k) - ema_recursive (alpha_of 26) s k =
               c * (1 - (1 - alpha_of 26) ^ Suc k)"
    by (rule ema_recursive_step_linear [OF step k])
  have "fst (compute_macd s) ! Suc k - fst (compute_macd s) ! k =
          c * (1 - (1 - alpha_of 12) ^ Suc k) - c * (1 - (1 - alpha_of 26) ^ Suc k)"
    using k d12 d26 by (simp add: macd_nth)
  also have "\<dots> = c * ((1 - alpha_of 26) ^ Suc k - (1 - alpha_of 12) ^ Suc k)"
    by (simp add: algebra_simps)
  also have "\<dots> > 0" using c pw by simp
  finally show ?thesis by simp
qed

lemma signal_below_macd_on_linear:
  assumes step: "\<And>k. Suc k < length s \<Longrightarrow> s ! Suc k - s ! k = c" and c: "0 < c"
    and t: "0 < t" "t < length s"
  shows "snd (compute_macd s) ! t < fst (compute_macd s) ! t"
proof -
  have a: "0 < alpha_of 9" "alpha_of 9 < 1" by (simp_all add: alpha_of_def)
  have inc: "\<And>k. Suc k < length (fst (compute_macd s)) \<Longrightarrow>
               fst (compute_macd s) ! k < fst (compute_macd s) ! Suc k"
    using macd_rises_on_linear [OF step c] by (simp add: length_compute_macd)
  have "ema_recursive (alpha_of 9) (fst (compute_macd s)) t < fst (compute_macd s) ! t"
    using ema_recursive_lag [OF a inc, of t] t by (simp add: length_compute_macd)
  then show ?thesis using t by (simp add: signal_nth)
qed

lemma last_filter_last:
  assumes "xs \<noteq> []" "P (last xs)"
  shows "filter P xs \<noteq> [] \<and> last (filter P xs) = last xs"
proof -
  have xs: "xs = butlast xs @ [last xs]" using assms(1) by simp
  have "filter P xs = filter P (butlast xs) @ [last xs]"
    using assms(2) by (subst xs) simp
  then show ?thesis by simp
qed

lemma get_signals_last_complete:
  assumes "frame \<noteq> []" "complete_row (last frame)"
  shows "get_signals frame = classify (last frame)"
  using last_filter_last [OF assms(1), of complete_row] assms(2)
  by (simp add: get_signals_def dropna_def Let_def)

lemma last_calculate_indicators:
  assumes "df \<noteq> []"
  shows "last (calculate_indicators df) = calculate_indicators df ! (length df - 1)"
    and "calculate_indicators df \<noteq> []"
proof -
  have "length (calculate_indicators df) = length df" by (rule length_calculate_indicators)
  with assms show ne: "calculate_indicators df \<noteq> []" by auto
  show "last (calculate_indicators df) = calculate_indicators df ! (length df - 1)"
    using last_conv_nth [OF ne] by (simp add: length_calculate_indicators)
qed

lemma last_row_fields:
  assumes "df \<noteq> []"
  defines "n \<equiv> length df - 1"
  defines "closes \<equiv> map Close df"
  shows "last (calculate_indicators df) =
     \<lparr>ts = ts (df ! n), Open = Fin (Open (df ! n)), High = Fin (High (df ! n)),
      Low = Fin (Low (df ! n)), Close = Fin (closes ! n), Volume = Fin (Volume (df ! n)),
      EMA = Fin (ema_adjusted (alpha_of 20) closes n),
      SMA = of_opt (rolling_mean 10 (map Some closes) ! n),
      RSI = rsi_spec 14 closes n,
      MACD = Fin (fst (compute_macd closes) ! n),
      Signal = Fin (snd (compute_macd closes) ! n)\<rparr>"
proof -
  have n: "n < length df" using assms(1) by (simp add: n_def)
  then have nc: "n < length closes" by (simp add: closes_def)
  have cn: "Close (df ! n) = closes ! n" using n by (simp add: closes_def)
  have "last (calculate_indicators df) = calculate_indicators df ! n"
    unfolding n_def by (rule last_calculate_indicators(1) [OF assms(1)])
  then show ?thesis
    using n nc cn ewm_mean_adjust [of 20 n closes] compute_rsi_nth [of 14 n closes]
    by (simp add: calculate_indicators_nth closes_def [symmetric])
qed

lemma classify_EMA_SMA:
  "map_of (classify r) ''EMA'' = Some (if fgt (Close r) (EMA r) then BUY else SELL) \<and>
   map_of (classify r) ''SMA'' = Some (if fgt (Close r) (SMA r) then BUY else SELL)"
  by (simp add: classify_def)

lemma decreasing_signals:
  assumes s: "sorted_wrt (>) (map Close df)" and len: "15 \<le> length df"
  shows "map_of (get_signals (calculate_indicators df)) ''EMA'' = Some SELL \<and>
         map_of (get_signals (calculate_indicators df)) ''SMA'' = Some SELL"
proof -
  define n where "n = length df - 1"
  define closes where "closes = map Close df"
  have ne: "df \<noteq> []" using len by auto
  have n: "14 \<le> n" "n < length closes" "length closes = length df"
    using len by (simp_all add: n_def closes_def)
  have srt: "sorted_wrt (>) closes" using s by (simp add: closes_def)
  have ge: "closes ! n \<le> closes ! k" if "k \<le> n" for k
  proof (cases "k = n")
    case True
    then show ?thesis by simp
  next
    case False
    with that have "k < n" by simp
    then show ?thesis
      using sorted_wrt_nth_less [OF srt, of k n] n by simp
  qed
  define r where "r = last (calculate_indicators df)"
  have r: "r = \<lparr>ts = ts (df ! n), Open = Fin (Open (df ! n)), High = Fin (High (df ! n)),
      Low = Fin (Low (df ! n)), Close = Fin (closes ! n), Volume = Fin (Volume (df ! n)),
      EMA = Fin (ema_adjusted (alpha_of 20) closes n),
      SMA = of_opt (rolling_mean 10 (map Some closes) ! n),
      RSI = rsi_spec 14 closes n,
      MACD = Fin (fst (compute_macd closes) ! n),
      Signal = Fin (snd (compute_macd closes) ! n)\<rparr>"
    unfolding r_def n_def closes_def by (rule last_row_fields [OF ne])
  have rsi: "rsi_spec 14 closes n = Fin 0"
    by (rule rsi_decreasing [OF srt]) (use n in simp_all)
  have sma: "rolling_mean 10 (map Some closes) ! n =
               Some ((\<Sum>k\<leftarrow>[Suc n - 10..<Suc n]. closes ! k) / real 10)"
    using rolling_mean_Some [of 10 n closes] n by simp
  have sma_ge: "closes ! n \<le> (\<Sum>k\<leftarrow>[Suc n - 10..<Suc n]. closes ! k) / real 10"
    by (rule window_mean_ge) (use n ge in simp_all)
  have ema_ge: "closes ! n \<le> ema_adjusted (alpha_of 20) closes n"
    by (rule ema_adjusted_ge) (use ge in \<open>simp_all add: alpha_of_def\<close>)
  have comp: "complete_row r"
    unfolding r by (simp add: complete_row_def rsi sma)
  have "get_signals (calculate_indicators df) = classify r"
    unfolding r_def
    by (rule get_signals_last_complete [OF last_calculate_indicators(2) [OF ne]])
       (use comp in \<open>simp add: r_def\<close>)
  moreover have "\<not> fgt (Close r) (EMA r)"
    unfolding r using ema_ge by (simp add: fgt_def)
  moreover have "\<not> fgt (Close r) (SMA r)"
    unfolding r sma using sma_ge by (simp add: fgt_def)
  ultimately show ?thesis
    using classify_EMA_SMA [of r] by simp
qed

text \<open>
  Claim C5. On the latest fully defined row the EMA signal is BUY when Close > EMA and
  SELL otherwise, and the SMA signal is BUY when Close > SMA and SELL otherwise; neither
  is ever HOLD there. For a strictly decreasing close-price series of at least 15 bars
  (the RSI needs 14 price changes) both signals are SELL.
\<close>

theorem ema_sma_never_hold:
  "(dropna frame \<noteq> [] \<longrightarrow>
      map_of (get_signals frame) ''EMA'' =
        Some (if fgt (Close (last (dropna frame))) (EMA (last (dropna frame))) then BUY else SELL) \<and>
      map_of (get_signals frame) ''SMA'' =
        Some (if fgt (Close (last (dropna frame))) (SMA (last (dropna frame))) then BUY else SELL)) \<and>
   (sorted_wrt (>) (map Close df) \<and> 15 \<le> length df \<longrightarrow>
      map_of (get_signals (calculate_indicators df)) ''EMA'' = Some SELL \<and>
      map_of (get_signals (calculate_indicators df)) ''SMA'' = Some SELL)"
proof (intro conjI impI)
  assume "dropna frame \<noteq> []"
  then have g: "get_signals frame = classify (last (dropna frame))"
    by (simp add: get_signals_def Let_def)
  show "map_of (get_signals frame) ''EMA'' =
        Some (if fgt (Close (last (dropna frame))) (EMA (last (dropna frame))) then BUY else SELL)"
    unfolding g using classify_EMA_SMA by blast
  show "map_of (get_signals frame) ''SMA'' =
        Some (if fgt (Close (last (dropna frame))) (SMA (last (dropna frame))) then BUY else SELL)"
    unfolding g using classify_EMA_SMA by blast
next
  assume h: "sorted_wrt (>) (map Close df) \<and> 15 \<le> length df"
  then show "map_of (get_signals (calculate_indicators df)) ''EMA'' = Some SELL"
    using decreasing_signals [of df] by blast
  from h show "map_of (get_signals (calculate_indicators df)) ''SMA'' = Some SELL"
    using decreasing_signals [of df] by blast
qed

theorem ema_sma_never_hold_witness:
  "dropna [full_row] \<noteq> [] \<and>
   map_of (get_signals [full_row]) ''EMA'' = Some BUY \<and>
   map_of (get_signals [full_row]) ''SMA'' = Some SELL \<and>
   sorted_wrt (>) (map Close desc_bars) \<and> 15 \<le> length desc_bars \<and>
   map_of (get_signals (calculate_indicators desc_bars)) ''EMA'' = Some SELL \<and>
   map_of (get_signals (calculate_indicators desc_bars)) ''SMA'' = Some SELL"
proof -
  have a: "dropna [full_row] \<noteq> []" "last (dropna [full_row]) = full_row"
    by (simp_all add: dropna_def complete_row_def full_row_def)
  have b: "sorted_wrt (>) (map Close desc_bars)" "15 \<le> length desc_bars"
    by (simp_all add: desc_bars_def map_Close_bars_of length_bars_of desc_closes_def)
  have c: "fgt (Close full_row) (EMA full_row)" "\<not> fgt (Close full_row) (SMA full_row)"
    by (simp_all add: full_row_def fgt_def)
  show ?thesis
    using ema_sma_never_hold [of "[full_row]" desc_bars] a b c by simp
qed

lemma ascending_frame_signals:
  "map Close df = asc_closes \<Longrightarrow>
   (let frame = calculate_indicators df; r = last frame; sigs = get_signals frame
    in complete_row r \<and> r = last (dropna frame) \<and>
       fgt (RSI r) (Fin 70) \<and> fgt (MACD r) (Signal r) \<and>
       fgt (Close r) (EMA r) \<and> fgt (Close r) (SMA r) \<and>
       sigs = [(''RSI'', SELL), (''MACD'', BUY), (''EMA'', BUY), (''SMA'', BUY)] \<and>
       buy_count sigs = 3 \<and> overall (buy_count sigs) = BUY)"
proof -
  assume c: "map Close df = asc_closes"
  have len: "length df = 21"
    using arg_cong [OF c, of length] by (simp add: asc_closes_def)
  then have ne: "df \<noteq> []" by auto
  define r where "r = last (calculate_indicators df)"
  have r: "r = \<lparr>ts = ts (df ! 20), Open = Fin (Open (df ! 20)), High = Fin (High (df ! 20)),
      Low = Fin (Low (df ! 20)), Close = Fin (asc_closes ! 20), Volume = Fin (Volume (df ! 20)),
      EMA = Fin (ema_adjusted (alpha_of 20) asc_closes 20),
      SMA = of_opt (rolling_mean 10 (map Some asc_closes) ! 20),
      RSI = rsi_spec 14 asc_closes 20,
      MACD = Fin (fst (compute_macd asc_closes) ! 20),
      Signal = Fin (snd (compute_macd asc_closes) ! 20)\<rparr>"
    unfolding r_def using last_row_fields [OF ne] by (simp add: len c)
  have le: "asc_closes ! k \<le> asc_closes ! 20" if "k \<le> 20" for k
    using that asc_closes_nth [of k] asc_closes_nth [of 20] by simp
  have lt: "asc_closes ! k < asc_closes ! 20" if "k < 20" for k
    using that asc_closes_nth [of k] asc_closes_nth [of 20] by simp
  have rsi: "rsi_spec 14 asc_closes 20 = Fin 100"
    by (rule rsi_increasing [OF asc_closes_sorted]) (simp_all add: asc_closes_def)
  have macd: "snd (compute_macd asc_closes) ! 20 < fst (compute_macd asc_closes) ! 20"
    by (rule signal_below_macd_on_linear [where c = 1])
       (simp_all add: asc_closes_step, simp add: asc_closes_def)
  have ema: "ema_adjusted (alpha_of 20) asc_closes 20 < asc_closes ! 20"
    by (rule ema_adjusted_less) (use le lt in \<open>simp_all add: alpha_of_def\<close>)
  have sma: "rolling_mean 10 (map Some asc_closes) ! 20 =
               Some ((\<Sum>k\<leftarrow>[Suc 20 - 10..<Suc 20]. asc_closes ! k) / real 10)"
    using rolling_mean_Some [of 10 20 asc_closes] by (simp add: asc_closes_def)
  have sma_lt: "(\<Sum>k\<leftarrow>[Suc 20 - 10..<Suc 20]. asc_closes ! k) / real 10 < asc_closes ! 20"
    by (rule window_mean_less) (use lt in simp_all)
  have comp: "complete_row r"
    unfolding r by (simp add: complete_row_def rsi sma)
  have nef: "calculate_indicators df \<noteq> []"
    by (rule last_calculate_indicators(2) [OF ne])
  have lastd: "r = last (dropna (calculate_indicators df))"
    using last_filter_last [OF nef, of complete_row] comp by (simp add: r_def dropna_def)
  have g: "get_signals (calculate_indicators df) = classify r"
    unfolding r_def by (rule get_signals_last_complete [OF nef]) (use comp in \<open>simp add: r_def\<close>)
  have f1: "fgt (RSI r) (Fin 70)" unfolding r by (simp add: rsi fgt_def)
  have f2: "fgt (MACD r) (Signal r)" unfolding r using macd by (simp add: fgt_def)
  have f3: "fgt (Close r) (EMA r)" unfolding r using ema by (simp add: fgt_def)
  have f4: "fgt (Close r) (SMA r)" unfolding r sma using sma_lt by (simp add: fgt_def)
  have n30: "\<not> flt (RSI r) (Fin 30)" unfolding r by (simp add: rsi)
  have cl: "classify r = [(''RSI'', SELL), (''MACD'', BUY), (''EMA'', BUY), (''SMA'', BUY)]"
    using f1 f2 f3 f4 n30 by (simp add: classify_def)
  have bc: "buy_count (classify r) = 3"
    unfolding cl by (simp add: buy_count_def)
  have ov: "overall (buy_count (classify r)) = BUY"
    unfolding bc by (simp add: overall_def)
  show ?thesis
    unfolding Let_def r_def [symmetric] g
    using comp lastd f1 f2 f3 f4 cl bc ov by blast
qed

text \<open>
  Claim C6. For the closes 10, 11, ..., 30 the last row is fully defined, its RSI exceeds
  70, its MACD exceeds its Signal, its Close exceeds its EMA and its SMA; the signals are
  SELL, BUY, BUY, BUY, the buy count is 3 and the overall recommendation is BUY.
\<close>

theorem ascending_scenario:
  "map Close df = asc_closes \<Longrightarrow>
   (let frame = calculate_indicators df; r = last frame; sigs = get_signals frame
    in complete_row r \<and> r = last (dropna frame) \<and>
       fgt (RSI r) (Fin 70) \<and> fgt (MACD r) (Signal r) \<and>
       fgt (Close r) (EMA r) \<and> fgt (Close r) (SMA r) \<and>
       sigs = [(''RSI'', SELL), (''MACD'', BUY), (''EMA'', BUY), (''SMA'', BUY)] \<and>
       buy_count sigs = 3 \<and> overall (buy_count sigs) = BUY)"
  by (rule ascending_frame_signals)

theorem ascending_scenario_witness:
  "map Close asc_bars = asc_closes \<and>
   get_signals (calculate_indicators asc_bars) =
     [(''RSI'', SELL), (''MACD'', BUY), (''EMA'', BUY), (''SMA'', BUY)] \<and>
   buy_count (get_signals (calculate_indicators asc_bars)) = 3 \<and>
   overall (buy_count (get_signals (calculate_indicators asc_bars))) = BUY"
proof -
  have c: "map Close asc_bars = asc_closes"
    unfolding asc_bars_def by (rule map_Close_bars_of)
  show ?thesis
    using ascending_scenario [OF c] c by (simp add: Let_def buy_count_def overall_def)
qed

section \<open>The scan report\<close>

lemma split_on_nonempty: "split_on c xs \<noteq> []"
  by (induction xs) (auto split: list.splits)

lemma split_on_plain: "c \<notin> set x \<Longrightarrow> split_on c x = [x]"
  by (induction x) auto

lemma split_on_append:
  "c \<notin> set x \<Longrightarrow> split_on c (x @ c # rest) = x # split_on c rest"
  by (induction x) auto

lemma split_on_join:
  "xs \<noteq> [] \<Longrightarrow> (\<And>x. x \<in> set xs \<Longrightarrow> c \<notin> set x) \<Longrightarrow> split_on c (join [c] xs) = xs"
proof (induction "[c]" xs rule: join.induct)
  case 1
  then show ?case by simp
next
  case (2 x)
  then show ?case by (simp add: split_on_plain)
next
  case (3 x y ys)
  then show ?case by (simp add: split_on_append)
qed

lemma digit_not_newline: "d < 10 \<Longrightarrow> digit d \<noteq> CHR 0x0A"
proof
  assume d: "d < 10" and e: "digit d = CHR 0x0A"
  have "of_char (digit d) = (48 + d) mod 256"
    unfolding digit_def by (simp only: of_char_of)
  moreover have "of_char (CHR 0x0A) = (10::nat)" by simp
  ultimately have "(48 + d) mod 256 = 10" using e by simp
  with d show False by simp
qed

lemma str_nat_no_newline: "CHR 0x0A \<notin> set (str_nat n)"
proof (induction n rule: str_nat.induct)
  case (1 n)
  show ?case
  proof (cases "n < 10")
    case True
    then show ?thesis
      using digit_not_newline [of n] by (subst str_nat.simps) auto
  next
    case False
    have "n mod 10 < 10" by simp
    then have "digit (n mod 10) \<noteq> CHR 0x0A" by (rule digit_not_newline)
    with False 1 show ?thesis
      by (subst str_nat.simps) auto
  qed
qed

lemma report_line_no_newline:
  "CHR 0x0A \<notin> set s \<Longrightarrow> CHR 0x0A \<notin> set (report_line s n)"
  by (simp add: report_line_def str_nat_no_newline)

lemma scan_lines_no_newline:
  "CHR 0x0A \<notin> set s \<Longrightarrow> x \<in> set (scan_lines fetch s) \<Longrightarrow> CHR 0x0A \<notin> set x"
  by (auto simp: scan_lines_def report_line_no_newline split: option.splits if_splits)

lemma scan_loop_no_newline:
  assumes "list_all (\<lambda>s. CHR 0x0A \<notin> set s) syms" "x \<in> set (scan_loop fetch syms [])"
  shows "CHR 0x0A \<notin> set x"
proof -
  from assms(2) obtain s where "s \<in> set syms" "x \<in> set (scan_lines fetch s)"
    by (auto simp: scan_loop_acc)
  with assms(1) show ?thesis
    using scan_lines_no_newline [of s x fetch] by (auto simp: list_all_iff)
qed

lemma report_lines:
  assumes "list_all (\<lambda>s. CHR 0x0A \<notin> set s) syms"
  shows "(if scan_loop fetch syms [] = []
          then scan_report (scan_loop fetch syms []) = ''No strong BUY signals found.''
          else split_on (CHR 0x0A) (scan_report (scan_loop fetch syms [])) = scan_loop fetch syms [])"
proof (cases "scan_loop fetch syms [] = []")
  case True
  then show ?thesis by (simp add: scan_report_def)
next
  case False
  have "split_on (CHR 0x0A) (join [CHR 0x0A] (scan_loop fetch syms [])) = scan_loop fetch syms []"
    by (rule split_on_join [OF False]) (rule scan_loop_no_newline [OF assms])
  with False show ?thesis by (simp add: scan_report_def)
qed

lemma tickers_no_newline: "list_all (\<lambda>s. CHR 0x0A \<notin> set s) tickers"
  by (simp add: tickers_def)

lemma str_nat_digit: "n < 10 \<Longrightarrow> str_nat n = [digit n]"
  by (subst str_nat.simps) simp

lemma scan_buy_count_le: "scan_buy_count fetch s = Some n \<Longrightarrow> n \<le> 4"
  by (auto simp: scan_buy_count_def buy_count_get_signals_le split: option.splits if_splits)

lemma report_line_inj:
  assumes "n \<le> 4" "m \<le> 4" "report_line s n = report_line t m"
  shows "s = t"
proof -
  have "s @ ('': '' @ [digit n] @ ''/4 indicators say BUY'') =
        t @ ('': '' @ [digit m] @ ''/4 indicators say BUY'')"
    using assms by (simp add: report_line_def str_nat_digit)
  then show ?thesis
    by (subst (asm) append_eq_append_conv) simp_all
qed

lemma report_line_in_scan:
  assumes s: "s \<in> set syms" and n: "scan_buy_count fetch s = Some n"
  shows "(report_line s n \<in> set (scan_loop fetch syms [])) = (3 \<le> n)"
proof
  assume "report_line s n \<in> set (scan_loop fetch syms [])"
  then obtain t where t: "t \<in> set syms" "report_line s n \<in> set (scan_lines fetch t)"
    by (auto simp: scan_loop_acc)
  from t(2) have "\<exists>m. scan_buy_count fetch t = Some m \<and> 3 \<le> m \<and>
      report_line s n = report_line t m"
    by (cases "scan_buy_count fetch t") (auto simp: scan_lines_def split: if_splits)
  then obtain m where m: "scan_buy_count fetch t = Some m" "3 \<le> m"
    "report_line s n = report_line t m"
    by blast
  have "s = t"
    by (rule report_line_inj [OF scan_buy_count_le [OF n] scan_buy_count_le [OF m(1)] m(3)])
  with n m show "3 \<le> n" by simp
next
  assume "3 \<le> n"
  with n have "report_line s n \<in> set (scan_lines fetch s)"
    by (simp add: scan_lines_def)
  with s show "report_line s n \<in> set (scan_loop fetch syms [])"
    by (auto simp: scan_loop_acc)
qed

lemma report_line_not_sentinel: "report_line s n \<noteq> ''No strong BUY signals found.''"
proof
  assume "report_line s n = ''No strong BUY signals found.''"
  then have "last (report_line s n) = last ''No strong BUY signals found.''" by simp
  then show False by (simp add: report_line_def)
qed

lemma report_line_in_report:
  assumes nl: "list_all (\<lambda>s. CHR 0x0A \<notin> set s) syms"
    and s: "s \<in> set syms" and n: "scan_buy_count fetch s = Some n"
  shows "(report_line s n \<in> set (split_on (CHR 0x0A) (scan_report (scan_loop fetch syms [])))) =
         (3 \<le> n)"
proof (cases "scan_loop fetch syms [] = []")
  case True
  then have "\<not> 3 \<le> n"
    using report_line_in_scan [OF s n] by simp
  moreover have "split_on (CHR 0x0A) (scan_report (scan_loop fetch syms [])) =
                   [''No strong BUY signals found.'']"
    using True by (simp add: scan_report_def)
  ultimately show ?thesis
    using report_line_not_sentinel [of s n] by simp
next
  case False
  then have "split_on (CHR 0x0A) (scan_report (scan_loop fetch syms [])) = scan_loop fetch syms []"
    using report_lines [OF nl, of fetch] by simp
  then show ?thesis
    using report_line_in_scan [OF s n] by simp
qed

lemma asc_bars_buy_count: "buy_count (get_signals (calculate_indicators asc_bars)) = 3"
proof -
  have c: "map Close asc_bars = asc_closes"
    unfolding asc_bars_def by (rule map_Close_bars_of)
  show ?thesis
    using ascending_frame_signals [OF c] by (simp add: Let_def buy_count_def)
qed

lemma desc_bars_buy_count: "buy_count (get_signals (calculate_indicators desc_bars)) < 3"
proof -
  have b: "sorted_wrt (>) (map Close desc_bars)" "15 \<le> length desc_bars"
    by (simp_all add: desc_bars_def map_Close_bars_of length_bars_of desc_closes_def)
  obtain a b' c d where g: "get_signals (calculate_indicators desc_bars) =
      [(''RSI'', a), (''MACD'', b'), (''EMA'', c), (''SMA'', d)]"
    using get_signals_shape by blast
  have "c = SELL" "d = SELL"
    using decreasing_signals [OF b] by (simp_all add: g)
  then show ?thesis by (simp add: g buy_count_def)
qed

lemma bars_nonempty: "asc_bars \<noteq> []" "desc_bars \<noteq> []"
  by (simp_all add: asc_bars_def desc_bars_def bars_of_def asc_closes_def desc_closes_def)

lemma digit_3: "digit 3 = CHR ''3''"
  by code_simp

lemma str_nat_3: "str_nat 3 = ''3''"
  by (subst str_nat.simps) (simp add: digit_3)

lemma scan_buy_count_demo:
  "scan_buy_count fetch_demo ''AAPL'' = Some 3"
  "scan_buy_count fetch_demo ''NVDA'' = Some 3"
  "scan_buy_count fetch_demo ''MSFT'' = None"
  "scan_buy_count fetch_demo ''TSLA'' = None"
  "scan_buy_count fetch_demo ''GOOG'' =
     Some (buy_count (get_signals (calculate_indicators desc_bars)))"
  by (simp_all add: scan_buy_count_def fetch_demo_def bars_nonempty asc_bars_buy_count)

lemma demo_lines:
  "scan_loop fetch_demo tickers [] =
     [''AAPL: 3/4 indicators say BUY'', ''NVDA: 3/4 indicators say BUY'']"
  using desc_bars_buy_count
  by (simp add: tickers_def fetch_demo_def bars_nonempty asc_bars_buy_count str_nat_3 Let_def)

text \<open>
  Claim C7. The scan visits the symbols in order. A symbol whose fetch fails or gives an
  empty series adds nothing and the scan goes on; any other symbol adds the line
  "symbol: n/4 indicators say BUY" exactly when its buy count n is at least 3 (n is at
  most 4). The report emitted holds exactly these lines, one per line and in this order,
  when there is one, so a symbol of the watch-list with buy count n has its line in the
  report if and only if n is at least 3; with none the report is the fixed sentence.
\<close>

theorem scan_records_majority_buy:
  "scan_loop fetch syms [] =
     concat (map (\<lambda>s. case scan_buy_count fetch s of
                          None \<Rightarrow> []
                        | Some n \<Rightarrow>
                            if 3 \<le> n then [s @ '': '' @ str_nat n @ ''/4 indicators say BUY'']
                            else []) syms) \<and>
   scan_market fetch = [Update_scan_results (scan_report (scan_loop fetch tickers []))] \<and>
   (case scan_buy_count fetch s of None \<Rightarrow> True | Some n \<Rightarrow> n \<le> 4) \<and>
   (scan_buy_count fetch s = None) = (fetch s = None \<or> fetch s = Some []) \<and>
   (list_all (\<lambda>x. CHR 0x0A \<notin> set x) syms \<longrightarrow>
      (if scan_loop fetch syms [] = []
       then scan_report (scan_loop fetch syms []) = ''No strong BUY signals found.''
       else split_on (CHR 0x0A) (scan_report (scan_loop fetch syms [])) =
              scan_loop fetch syms [])) \<and>
   (list_all (\<lambda>x. CHR 0x0A \<notin> set x) syms \<and> t \<in> set syms \<and>
    scan_buy_count fetch t = Some m \<longrightarrow>
      (t @ '': '' @ str_nat m @ ''/4 indicators say BUY''
         \<in> set (split_on (CHR 0x0A) (scan_report (scan_loop fetch syms [])))) = (3 \<le> m)) \<and>
   (\<exists>report. scan_market fetch = [Update_scan_results report] \<and>
      (if scan_loop fetch tickers [] = []
       then report = ''No strong BUY signals found.''
       else split_on (CHR 0x0A) report = scan_loop fetch tickers []))"
proof -
  have "scan_lines fetch = (\<lambda>s. case scan_buy_count fetch s of
                          None \<Rightarrow> []
                        | Some n \<Rightarrow>
                            if 3 \<le> n then [s @ '': '' @ str_nat n @ ''/4 indicators say BUY'']
                            else [])"
    by (rule ext) (simp add: scan_lines_def report_line_def split: option.split)
  then have a: "scan_loop fetch syms [] =
     concat (map (\<lambda>s. case scan_buy_count fetch s of
                          None \<Rightarrow> []
                        | Some n \<Rightarrow>
                            if 3 \<le> n then [s @ '': '' @ str_nat n @ ''/4 indicators say BUY'']
                            else []) syms)"
    using scan_loop_acc [of fetch syms "[]"] by simp
  have b: "case scan_buy_count fetch s of None \<Rightarrow> True | Some n \<Rightarrow> n \<le> 4"
    by (auto simp: scan_buy_count_def buy_count_get_signals_le split: option.split)
  have c: "(scan_buy_count fetch s = None) = (fetch s = None \<or> fetch s = Some [])"
    by (auto simp: scan_buy_count_def split: option.splits)
  have d: "scan_market fetch = [Update_scan_results (scan_report (scan_loop fetch tickers []))]"
    by (simp add: scan_market_def)
  have e: "list_all (\<lambda>x. CHR 0x0A \<notin> set x) syms \<longrightarrow>
      (if scan_loop fetch syms [] = []
       then scan_report (scan_loop fetch syms []) = ''No strong BUY signals found.''
       else split_on (CHR 0x0A) (scan_report (scan_loop fetch syms [])) =
              scan_loop fetch syms [])"
    using report_lines [of syms fetch] by blast
  have f: "list_all (\<lambda>x. CHR 0x0A \<notin> set x) syms \<and> t \<in> set syms \<and>
    scan_buy_count fetch t = Some m \<longrightarrow>
      (t @ '': '' @ str_nat m @ ''/4 indicators say BUY''
         \<in> set (split_on (CHR 0x0A) (scan_report (scan_loop fetch syms [])))) = (3 \<le> m)"
    using report_line_in_report [of syms t fetch m] by (simp add: report_line_def)
  have g: "\<exists>report. scan_market fetch = [Update_scan_results report] \<and>
      (if scan_loop fetch tickers [] = []
       then report = ''No strong BUY signals found.''
       else split_on (CHR 0x0A) report = scan_loop fetch tickers [])"
    using report_lines [OF tickers_no_newline, of fetch] d by blast
  show ?thesis
    using a b c d e f g by blast
qed

theorem scan_records_majority_buy_witness:
  "list_all (\<lambda>x. CHR 0x0A \<notin> set x) tickers \<and> ''AAPL'' \<in> set tickers \<and>
   scan_buy_count fetch_demo ''AAPL'' = Some 3 \<and>
   scan_buy_count fetch_demo ''MSFT'' = None \<and> fetch_demo ''MSFT'' = Some [] \<and>
   ''AAPL: 3/4 indicators say BUY''
      \<in> set (split_on (CHR 0x0A) (scan_report (scan_loop fetch_demo tickers []))) \<and>
   split_on (CHR 0x0A) (scan_report (scan_loop fetch_demo tickers [])) =
     [''AAPL: 3/4 indicators say BUY'', ''NVDA: 3/4 indicators say BUY''] \<and>
   scan_market fetch_demo =
     [Update_scan_results
        (''AAPL: 3/4 indicators say BUY'' @ [CHR 0x0A] @ ''NVDA: 3/4 indicators say BUY'')]"
proof -
  have h: "list_all (\<lambda>x. CHR 0x0A \<notin> set x) tickers" "''AAPL'' \<in> set tickers"
    by (simp_all add: tickers_def)
  have m: "fetch_demo ''MSFT'' = Some []" by (simp add: fetch_demo_def)
  have r: "scan_report (scan_loop fetch_demo tickers []) =
             ''AAPL: 3/4 indicators say BUY'' @ [CHR 0x0A] @ ''NVDA: 3/4 indicators say BUY''"
    by (simp add: demo_lines scan_report_def)
  note T = scan_records_majority_buy [of fetch_demo tickers "''MSFT''" "''AAPL''" 3]
  note T5 = T [THEN conjunct2, THEN conjunct2, THEN conjunct2, THEN conjunct2, THEN conjunct1]
  note T6 = T [THEN conjunct2, THEN conjunct2, THEN conjunct2, THEN conjunct2, THEN conjunct2,
      THEN conjunct1]
  have ne: "scan_loop fetch_demo tickers [] \<noteq> []" by (simp add: demo_lines)
  have s: "split_on (CHR 0x0A) (scan_report (scan_loop fetch_demo tickers [])) =
             scan_loop fetch_demo tickers []"
    using T5 h(1) ne by simp
  have "(''AAPL'' @ '': '' @ str_nat 3 @ ''/4 indicators say BUY''
           \<in> set (split_on (CHR 0x0A) (scan_report (scan_loop fetch_demo tickers [])))) =
        ((3::nat) \<le> 3)"
    using T6 h scan_buy_count_demo(1) by blast
  then have i: "''AAPL: 3/4 indicators say BUY''
           \<in> set (split_on (CHR 0x0A) (scan_report (scan_loop fetch_demo tickers [])))"
    by (simp add: str_nat_3)
  have k: "scan_market fetch_demo =
     [Update_scan_results
        (''AAPL: 3/4 indicators say BUY'' @ [CHR 0x0A] @ ''NVDA: 3/4 indicators say BUY'')]"
    unfolding r [symmetric] by (simp add: scan_market_def)
  have s2: "split_on (CHR 0x0A) (scan_report (scan_loop fetch_demo tickers [])) =
     [''AAPL: 3/4 indicators say BUY'', ''NVDA: 3/4 indicators say BUY'']"
    unfolding s by (rule demo_lines)
  show ?thesis
    using h m i s2 k scan_buy_count_demo(1,3) by blast
qed

end
